theory Spec2Isabelle
  imports Main "HOL-Library.Signed_Division"
begin

section \<open>Message output (msgui.cpp)\<close>

text \<open>
  \<^verbatim>\<open>gMsgUI\<close> prints classified messages. \<^verbatim>\<open>MsgUI::Error\<close> counts the errors
  and calls \<^verbatim>\<open>exit(1)\<close> once more than 1000 of them were printed; \<^verbatim>\<open>MsgUI::Verbose\<close>
  prints only when a verbose file is open. The formatted text of a message is kept as a
  structured value: one constructor per call site, carrying the values that are printed.
\<close>

datatype severity = SevError | SevWarning | SevVerbose

datatype message =
    UnknownDataType string
  | BufferTooBig int
  | InsufficientMemory int
  | MemoryNearlyFull
  | Removing nat int int int int
  | Assignment nat int int int int int
  | FailedToAssign nat
  | StartingOver int
  | NotAllMapped
  | BankUsageHeader
  | BankUsage int int int

record MsgUI =
  NumErrors :: nat
  IsVerbose :: bool
  Printed :: "(severity \<times> message) list"

text \<open>The process ends inside a call: \<^verbatim>\<open>exit(1)\<close> of \<^verbatim>\<open>MsgUI::Error\<close>.\<close>

datatype exited = Exit MsgUI

definition MsgUI_Error :: "message \<Rightarrow> MsgUI \<Rightarrow> exited + MsgUI" where
  "MsgUI_Error m ui =
     (let ui' = ui\<lparr>Printed := Printed ui @ [(SevError, m)], NumErrors := NumErrors ui + 1\<rparr>
      in if NumErrors ui' > 1000 then Inl (Exit ui') else Inr ui')"

definition MsgUI_Warning :: "message \<Rightarrow> MsgUI \<Rightarrow> MsgUI" where
  "MsgUI_Warning m ui = ui\<lparr>Printed := Printed ui @ [(SevWarning, m)]\<rparr>"

definition MsgUI_Verbose :: "message \<Rightarrow> MsgUI \<Rightarrow> MsgUI" where
  "MsgUI_Verbose m ui =
     (if IsVerbose ui then ui\<lparr>Printed := Printed ui @ [(SevVerbose, m)]\<rparr> else ui)"

section \<open>Base types (basetype.h, basetype.cpp)\<close>

record BaseType =
  Name :: string
  Size :: int

text \<open>
  \<^verbatim>\<open>BaseType::FromString\<close> keeps a function-local static
  \<^verbatim>\<open>std::unordered_map<std::string, std::unique_ptr<BaseType>>\<close>. The objects live on the
  heap: an address is a positive number, the null pointer is 0, and \<^verbatim>\<open>make_unique\<close> takes
  the next unused address. The map itself sends a name to the address it owns.
\<close>

type_synonym addr = nat

definition nullptr :: addr where
  "nullptr = 0"

record TypeMap =
  Table :: "string \<rightharpoonup> addr"
  Heap :: "addr \<rightharpoonup> BaseType"
  NextFree :: addr

definition TypeMap_emplace :: "string \<Rightarrow> int \<Rightarrow> TypeMap \<Rightarrow> addr \<times> TypeMap" where
  "TypeMap_emplace name sz tm =
     (case Table tm name of
        Some p \<Rightarrow> (p, tm)
      | None \<Rightarrow>
          (let p = NextFree tm
           in (p, tm\<lparr>Table := (Table tm)(name \<mapsto> p),
                      Heap := (Heap tm)(p \<mapsto> \<lparr>Name = name, Size = sz\<rparr>),
                      NextFree := Suc p\<rparr>)))"

definition types :: "(string \<times> int) list" where
  "types =
     [(''char'', 1), (''int'', 4), (''long'', 8), (''float'', 4), (''double'', 8),
      (''int8_t'', 1), (''int16_t'', 2), (''int32_t'', 4), (''int64_t'', 8), (''int128_t'', 16),
      (''uint8_t'', 1), (''uint16_t'', 2), (''uint32_t'', 4), (''uint64_t'', 8),
      (''uint128_t'', 16)]"

definition TypeMap_init :: TypeMap where
  "TypeMap_init =
     fold (\<lambda>(n, s) tm. snd (TypeMap_emplace n s tm)) types
       \<lparr>Table = Map.empty, Heap = Map.empty, NextFree = 1\<rparr>"

text \<open>
  The \<^verbatim>\<open>bool * success\<close> argument is \<open>None\<close> for the null pointer and \<open>Some b\<close> for a
  pointer to a flag that holds \<open>b\<close>; the flag as the call leaves it is returned.
  The result is \<open>Inl\<close> when \<^verbatim>\<open>gMsgUI.Error\<close> ended the process.
\<close>

record FromString_result =
  Returned :: addr
  SuccessFlag :: "bool option"
  Types :: TypeMap
  UI :: MsgUI

definition FromString ::
  "string \<Rightarrow> bool option \<Rightarrow> TypeMap \<Rightarrow> MsgUI \<Rightarrow> exited + FromString_result" where
  "FromString name success typemap ui =
     (case Table typemap name of
        Some p \<Rightarrow> Inr \<lparr>Returned = p, SuccessFlag = success, Types = typemap, UI = ui\<rparr>
      | None \<Rightarrow>
          (case (case success of
                   Some b \<Rightarrow> map_sum id (Pair (Some False)) (MsgUI_Error (UnknownDataType name) ui)
                 | None \<Rightarrow> Inr (None, MsgUI_Warning (UnknownDataType name) ui)) of
             Inl e \<Rightarrow> Inl e
           | Inr (success', ui') \<Rightarrow>
               (let (p, typemap') = TypeMap_emplace name 1 typemap
                in Inr \<lparr>Returned = p, SuccessFlag = success', Types = typemap', UI = ui'\<rparr>)))"

text \<open>A sequence of calls, each with its name and success argument; it stops when the process ends.\<close>

fun FromString_calls ::
  "(string \<times> bool option) list \<Rightarrow> TypeMap \<Rightarrow> MsgUI \<Rightarrow> exited + (TypeMap \<times> MsgUI)" where
  "FromString_calls [] typemap ui = Inr (typemap, ui)"
| "FromString_calls ((name, success) # cs) typemap ui =
     (case FromString name success typemap ui of
        Inl e \<Rightarrow> Inl e
      | Inr r \<Rightarrow> FromString_calls cs (Types r) (UI r))"

definition TypeMap_inv :: "TypeMap \<Rightarrow> bool" where
  "TypeMap_inv tm \<longleftrightarrow>
     0 < NextFree tm \<and>
     (\<forall>n p. Table tm n = Some p \<longrightarrow>
        0 < p \<and> p < NextFree tm \<and> (\<exists>sz. Heap tm p = Some \<lparr>Name = n, Size = sz\<rparr>))"

definition ui_start :: MsgUI where
  "ui_start = \<lparr>NumErrors = 0, IsVerbose = False, Printed = []\<rparr>"

section \<open>Passes and their dependencies (lua/pass.h, lua/pass.cpp, program.h)\<close>

text \<open>
  Of \<^verbatim>\<open>impl::Program\<close> the passes' bookkeeping reads and writes
  \<^verbatim>\<open>PassesPerformed\<close>, a \<^verbatim>\<open>std::set<std::string>\<close>; everything else of the program
  is the field \<open>Contents\<close>, which only the pass functions look at.
\<close>

record 'c Program =
  PassesPerformed :: "string set"
  Contents :: 'c

text \<open>
  A pass function \<^verbatim>\<open>bool (*)(impl::Program &)\<close> gets the program by reference: it returns
  its result and the program as it leaves it. \<^verbatim>\<open>Requires\<close> and \<^verbatim>\<open>Destroys\<close> are string
  vectors. The members \<^verbatim>\<open>Name_\<close>, \<^verbatim>\<open>Function_\<close>, \<^verbatim>\<open>Requires_\<close> and \<^verbatim>\<open>Destroys_\<close> are
  written with the class name in front, since a name cannot end with an underscore here.
\<close>

record 'c Pass =
  Pass_Name :: string
  Pass_Function :: "'c Program \<Rightarrow> bool \<times> 'c Program"
  Pass_Requires :: "string list"
  Pass_Destroys :: "string list"

text \<open>
  \<^verbatim>\<open>luaL_error\<close> does not return: it raises a Lua error with the formatted message
  (here: the pass that was tried and the pass whose results are missing). What a pass leaves
  on the Lua stack when it returns is the pushed boolean.
\<close>

datatype lua_error = ResultsNotAvailable string string

datatype lua_outcome = Raised lua_error | Pushed bool

fun CheckRequires :: "string \<Rightarrow> string list \<Rightarrow> string set \<Rightarrow> lua_error option" where
  "CheckRequires name [] performed = None"
| "CheckRequires name (req # reqs) performed =
     (if req \<notin> performed then Some (ResultsNotAvailable name req)
      else CheckRequires name reqs performed)"

fun EraseDestroyed :: "string list \<Rightarrow> string set \<Rightarrow> string set" where
  "EraseDestroyed [] performed = performed"
| "EraseDestroyed (dest # dests) performed = EraseDestroyed dests (performed - {dest})"

definition CheckDependencies :: "'c Pass \<Rightarrow> 'c Program \<Rightarrow> lua_error + 'c Program" where
  "CheckDependencies pass prog =
     (case CheckRequires (Pass_Name pass) (Pass_Requires pass) (PassesPerformed prog) of
        Some err \<Rightarrow> Inl err
      | None \<Rightarrow>
          Inr (prog\<lparr>PassesPerformed := EraseDestroyed (Pass_Destroys pass) (PassesPerformed prog)\<rparr>))"

definition FinishImpl :: "'c Pass \<Rightarrow> 'c Program \<Rightarrow> bool \<Rightarrow> 'c Program" where
  "FinishImpl pass prog success =
     (if success then prog\<lparr>PassesPerformed := insert (Pass_Name pass) (PassesPerformed prog)\<rparr>
      else prog)"

definition Finish :: "'c Pass \<Rightarrow> 'c Program \<Rightarrow> bool \<Rightarrow> lua_outcome \<times> 'c Program" where
  "Finish pass prog success = (Pushed success, FinishImpl pass prog success)"

text \<open>
  \<^verbatim>\<open>Pass::Run\<close>, for the program that \<^verbatim>\<open>GetProgram\<close> found among the Lua arguments.
  The outcome comes with the program as the call leaves it, also when an error was raised.
\<close>

definition Run :: "'c Pass \<Rightarrow> 'c Program \<Rightarrow> lua_outcome \<times> 'c Program" where
  "Run pass prog =
     (case CheckDependencies pass prog of
        Inl err \<Rightarrow> (Raised err, prog)
      | Inr prog1 \<Rightarrow>
          (let (res, prog2) = Pass_Function pass prog1
           in Finish pass prog2 res))"

section \<open>Ranges and spaces (range.h, range.cpp)\<close>

text \<open>
  A \<^verbatim>\<open>Range\<close> holds the two \<^verbatim>\<open>int\<close> members \<^verbatim>\<open>Begin_\<close> and \<^verbatim>\<open>End_\<close>. The operations
  below compare them and take minima and maxima, which cannot overflow; where the source adds
  or multiplies, the model says so at that place.
\<close>

record Range =
  Begin :: int
  End :: int

definition BeginEnd :: "int \<Rightarrow> int \<Rightarrow> Range" where
  "BeginEnd b e = \<lparr>Begin = b, End = e\<rparr>"

definition BeginCount :: "int \<Rightarrow> int \<Rightarrow> Range" where
  "BeginCount b c = \<lparr>Begin = b, End = b + c\<rparr>"

definition Range_first :: "Range \<Rightarrow> int" where
  "Range_first r = Begin r"

definition Range_size :: "Range \<Rightarrow> int" where
  "Range_size r = End r - Begin r"

definition Range_IsEmpty :: "Range \<Rightarrow> bool" where
  "Range_IsEmpty r \<longleftrightarrow> Begin r \<ge> End r"

definition Range_Overlaps :: "Range \<Rightarrow> Range \<Rightarrow> bool" where
  "Range_Overlaps t r \<longleftrightarrow> Begin t < End r \<and> End t > Begin r"

definition Range_Contains :: "Range \<Rightarrow> Range \<Rightarrow> bool" where
  "Range_Contains t r \<longleftrightarrow> Begin t \<le> Begin r \<and> End t \<ge> End r"

definition Range_union :: "Range \<Rightarrow> Range \<Rightarrow> Range" where
  "Range_union t r =
     (if Range_IsEmpty t then r
      else if \<not> Range_IsEmpty r
      then \<lparr>Begin = min (Begin t) (Begin r), End = max (End t) (End r)\<rparr>
      else t)"

definition Range_inter :: "Range \<Rightarrow> Range \<Rightarrow> Range" where
  "Range_inter t r =
     (let b = max (Begin t) (Begin r)
      in \<lparr>Begin = b, End = max b (min (End t) (End r))\<rparr>)"

definition Range_Remove :: "Range \<Rightarrow> Range \<Rightarrow> Range" where
  "Range_Remove t r =
     (if Begin r \<le> Begin t then t\<lparr>Begin := max (Begin t) (min (End t) (End r))\<rparr>
      else if End r \<ge> End t then t\<lparr>End := min (End t) (max (Begin t) (Begin r))\<rparr>
      else t)"

definition Range_shift :: "Range \<Rightarrow> int \<Rightarrow> Range" where
  "Range_shift r offset = \<lparr>Begin = Begin r + offset, End = End r + offset\<rparr>"

text \<open>\<^verbatim>\<open>RangeSubtract\<close> returns the number of ranges and fills \<^verbatim>\<open>result\<close>: here the list of them.\<close>

definition RangeSubtract :: "Range \<Rightarrow> Range \<Rightarrow> Range list" where
  "RangeSubtract from sub =
     (if Begin from < Begin sub
      then (if End from > End sub
            then [BeginEnd (Begin from) (Begin sub), BeginEnd (End sub) (End from)]
            else if End from \<le> Begin sub then [from]
            else [BeginEnd (Begin from) (Begin sub)])
      else (if End from \<le> End sub then []
            else if Begin from \<ge> End sub then [from]
            else [BeginEnd (End sub) (End from)]))"

text \<open>
  A \<^verbatim>\<open>Space\<close> is a \<^verbatim>\<open>std::vector<Range>\<close>. The binary operations assert equal sizes and
  then walk both vectors with \<^verbatim>\<open>std::equal\<close> or \<^verbatim>\<open>std::mismatch\<close> over the length of the
  first; the model is for spaces of equal dimensionality, as asserted.
\<close>

type_synonym Space = "Range list"

definition Space_of_dims :: "int list \<Rightarrow> Space" where
  "Space_of_dims dimensions = map (BeginCount 0) dimensions"

definition Dimensions :: "Space \<Rightarrow> nat" where
  "Dimensions s = length s"

definition Space_Contains :: "Space \<Rightarrow> Space \<Rightarrow> bool" where
  "Space_Contains t other \<longleftrightarrow> list_all2 Range_Contains t other"

definition Space_Overlaps :: "Space \<Rightarrow> Space \<Rightarrow> bool" where
  "Space_Overlaps t other \<longleftrightarrow> list_all2 Range_Overlaps t other"

definition Space_IsEmpty :: "Space \<Rightarrow> bool" where
  "Space_IsEmpty s \<longleftrightarrow> list_ex Range_IsEmpty s"

text \<open>\<^verbatim>\<open>GetVolume\<close> multiplies \<^verbatim>\<open>int\<close>s; the product is the mathematical one here.\<close>

definition GetVolume :: "Space \<Rightarrow> int" where
  "GetVolume s = fold (\<lambda>r i. i * Range_size r) s 1"

definition Space_Clear :: "Space \<Rightarrow> Space" where
  "Space_Clear s = map (\<lambda>rg. BeginCount (Begin rg) 0) s"

text \<open>
  \<^verbatim>\<open>operator &=\<close> intersects range by range inside the predicate of \<^verbatim>\<open>std::equal\<close>, which
  stops at the first range that became empty; the ranges behind it are not touched before the
  whole space is cleared.
\<close>

fun inter_until_empty :: "Space \<Rightarrow> Space \<Rightarrow> bool \<times> Space" where
  "inter_until_empty (a # as) (b # bs) =
     (let a' = Range_inter a b
      in if Range_IsEmpty a' then (False, a' # as)
         else (let (ok, as') = inter_until_empty as bs in (ok, a' # as')))"
| "inter_until_empty as bs = (True, as)"

definition Space_inter :: "Space \<Rightarrow> Space \<Rightarrow> Space" where
  "Space_inter t s =
     (let (ok, t') = inter_until_empty t s in if ok then t' else Space_Clear t')"

definition Space_union :: "Space \<Rightarrow> Space \<Rightarrow> Space" where
  "Space_union t s = map2 Range_union t s"

text \<open>
  \<^verbatim>\<open>Space::Remove\<close>: \<^verbatim>\<open>std::mismatch\<close> finds the first dimension in which \<open>s\<close> does not
  contain this space; \<open>first_mismatch\<close> is its index, or the length if there is none.
\<close>

fun first_mismatch :: "Space \<Rightarrow> Space \<Rightarrow> nat" where
  "first_mismatch (a # as) (b # bs) =
     (if Range_Contains b a then Suc (first_mismatch as bs) else 0)"
| "first_mismatch as bs = 0"

definition Space_Remove :: "Space \<Rightarrow> Space \<Rightarrow> Space" where
  "Space_Remove t s =
     (let i = first_mismatch t s
      in if i = length t then t
         else if \<not> list_all2 (\<lambda>a b. Range_Contains b a) (drop (Suc i) t) (drop (Suc i) s) then t
         else t[i := Range_Remove (t ! i) (s ! i)])"

definition Displace :: "Space \<Rightarrow> int list \<Rightarrow> Space" where
  "Displace s d = map2 Range_shift s d"

definition DisplaceNeg :: "Space \<Rightarrow> int list \<Rightarrow> Space" where
  "DisplaceNeg s d = map2 (\<lambda>a b. Range_shift a (- b)) s d"

definition GetOrigin :: "Space \<Rightarrow> int list" where
  "GetOrigin s = map Begin s"

definition GetDimensions :: "Space \<Rightarrow> int list" where
  "GetDimensions s = map Range_size s"

definition GetEffectiveDimensions :: "Space \<Rightarrow> int list" where
  "GetEffectiveDimensions s = filter (\<lambda>size. size > 1) (map Range_size s)"

text \<open>The index points of a range and of a space, to say what the operations mean.\<close>

definition Range_points :: "Range \<Rightarrow> int set" where
  "Range_points r = {Begin r ..< End r}"

definition Space_points :: "Space \<Rightarrow> int list set" where
  "Space_points s = {p. list_all2 (\<lambda>x r. x \<in> Range_points r) p s}"

text \<open>
  The dimensions in which \<open>s\<close> does not contain \<open>a\<close>, in ascending order, and the case in
  which \<^verbatim>\<open>Range::Remove\<close> does nothing by its own documentation: the range to remove lies
  inside the other one and touches neither border.
\<close>

definition mismatches :: "Space \<Rightarrow> Space \<Rightarrow> nat list" where
  "mismatches a s = filter (\<lambda>i. \<not> Range_Contains (s ! i) (a ! i)) [0..<length a]"

definition strictly_inside :: "Range \<Rightarrow> Range \<Rightarrow> bool" where
  "strictly_inside r t \<longleftrightarrow> Begin t < Begin r \<and> End r < End t"

section \<open>Adjacency and reachability (graph/graph.h, graph/itemset.h, graph/graph-extra.h)\<close>

text \<open>
  Of a graph the algorithms use \<^verbatim>\<open>Nodes()\<close> and \<^verbatim>\<open>Edges()\<close>: the nodes in the order of
  the container (identified by their IDs) and the edges with source and target. An
  \<^verbatim>\<open>ItemSet\<close> is a bit set over the node IDs, an \<^verbatim>\<open>ItemMap<ItemSet>\<close> holds one such set
  per node; \<^verbatim>\<open>g.GetNodeMap(g.GetNodeSet())\<close> starts with the empty set everywhere.
\<close>

record graph =
  Nodes :: "nat list"
  Edges :: "(nat \<times> nat) list"

type_synonym ItemSet = "nat set"

type_synonym 'v ItemMap = "nat \<Rightarrow> 'v"

definition AdjacencyMatrix :: "graph \<Rightarrow> ItemSet ItemMap" where
  "AdjacencyMatrix g =
     fold (\<lambda>(source, target) ret. ret(source := insert target (ret source))) (Edges g)
       (\<lambda>n. {})"

text \<open>The body of the two nested loops over the nodes, and the loops.\<close>

definition reach_step :: "nat \<Rightarrow> nat \<Rightarrow> ItemSet ItemMap \<Rightarrow> ItemSet ItemMap" where
  "reach_step n1 n2 ret = (if n2 \<in> ret n1 then ret(n1 := ret n1 \<union> ret n2) else ret)"

definition ReachabilityMatrix :: "graph \<Rightarrow> ItemSet ItemMap" where
  "ReachabilityMatrix g =
     fold (\<lambda>n1 ret. fold (\<lambda>n2 ret. reach_step n1 n2 ret) (Nodes g) ret) (Nodes g)
       (AdjacencyMatrix g)"

text \<open>A graph of four nodes with the path \<open>1 \<rightarrow> 3 \<rightarrow> 2 \<rightarrow> 4\<close>.\<close>

definition path_graph :: graph where
  "path_graph = \<lparr>Nodes = [1, 2, 3, 4], Edges = [(1, 3), (3, 2), (2, 4)]\<rparr>"

section \<open>Occupation charts (gen/occupationchart.h)\<close>

text \<open>
  \<^verbatim>\<open>OccupationChart<long>\<close> holds \<^verbatim>\<open>Capacity_\<close> and \<^verbatim>\<open>Entries_\<close>, a
  \<^verbatim>\<open>std::map<Time, T>\<close>: here the list of its (time, value) pairs in ascending order of the
  times. An iterator of a \<^verbatim>\<open>std::map\<close> stays with its element while other elements come
  and go, so an iterator is the key of its element, or \<open>None\<close> for \<^verbatim>\<open>end()\<close>. Times and
  values are \<^verbatim>\<open>long\<close>; the model computes with integers and does not follow overflow.
\<close>

type_synonym Time = int

type_synonym iterator = "Time option"

record OccupationChart =
  Capacity :: int
  Entries :: "(Time \<times> int) list"

text \<open>The constructor and \<^verbatim>\<open>Clear\<close>: the single entry \<^verbatim>\<open>{0, T()}\<close>.\<close>

definition new_chart :: "int \<Rightarrow> OccupationChart" where
  "new_chart capacity = \<lparr>Capacity = capacity, Entries = [(0, 0)]\<rparr>"

text \<open>
  What the standard leaves undefined, and a failed \<^verbatim>\<open>assert\<close>, end the call with an error:
  \<^verbatim>\<open>std::prev\<close> or \<^verbatim>\<open>--\<close> applied to \<^verbatim>\<open>begin()\<close>, and the assertions of the source.
\<close>

datatype chart_error = AssertionFailed | PrevOfBegin | DecrementBegin

definition lower_bound :: "(Time \<times> int) list \<Rightarrow> Time \<Rightarrow> iterator" where
  "lower_bound es t = map_option fst (find (\<lambda>(k, v). t \<le> k) es)"

definition upper_bound :: "(Time \<times> int) list \<Rightarrow> Time \<Rightarrow> iterator" where
  "upper_bound es t = map_option fst (find (\<lambda>(k, v). t < k) es)"

text \<open>\<^verbatim>\<open>std::prev(it)\<close>: the element before \<open>it\<close>; \<open>None\<close> if there is none.\<close>

definition prev_it :: "(Time \<times> int) list \<Rightarrow> iterator \<Rightarrow> Time option" where
  "prev_it es it =
     (case filter (\<lambda>(k, v). case it of None \<Rightarrow> True | Some t \<Rightarrow> k < t) es of
        [] \<Rightarrow> None
      | before \<Rightarrow> Some (fst (last before)))"

text \<open>\<^verbatim>\<open>it->second\<close> for an iterator at key \<open>t\<close>, and assignment to it.\<close>

definition second :: "(Time \<times> int) list \<Rightarrow> Time \<Rightarrow> int" where
  "second es t = (case map_of es t of Some v \<Rightarrow> v | None \<Rightarrow> 0)"

definition set_second :: "Time \<Rightarrow> int \<Rightarrow> (Time \<times> int) list \<Rightarrow> (Time \<times> int) list" where
  "set_second t x es = map (\<lambda>(k, v). if k = t then (k, x) else (k, v)) es"

text \<open>\<^verbatim>\<open>emplace_hint\<close> inserts at the place of the key, and nothing if the key is there.\<close>

definition emplace :: "Time \<Rightarrow> int \<Rightarrow> (Time \<times> int) list \<Rightarrow> (Time \<times> int) list" where
  "emplace t x es =
     (if t \<in> fst ` set es then es
      else filter (\<lambda>(k, v). k < t) es @ [(t, x)] @ filter (\<lambda>(k, v). t < k) es)"

definition erase :: "Time \<Rightarrow> (Time \<times> int) list \<Rightarrow> (Time \<times> int) list" where
  "erase t es = filter (\<lambda>(k, v). k \<noteq> t) es"

text \<open>The keys that \<^verbatim>\<open>for(auto it = itfrom; it != itto; ++it)\<close> visits.\<close>

definition visited :: "(Time \<times> int) list \<Rightarrow> Time \<Rightarrow> iterator \<Rightarrow> Time list" where
  "visited es itfrom itto =
     filter (\<lambda>k. itfrom \<le> k \<and> (case itto of None \<Rightarrow> True | Some t \<Rightarrow> k < t)) (map fst es)"

text \<open>
  \<^verbatim>\<open>operator[]\<close>: the value of the last entry at or before \<open>t\<close>;
  \<^verbatim>\<open>--it\<close> on \<^verbatim>\<open>begin()\<close> if there is none.
\<close>

definition sample :: "OccupationChart \<Rightarrow> Time \<Rightarrow> chart_error + int" where
  "sample chart t =
     (if \<not> t \<ge> 0 then Inl AssertionFailed
      else case prev_it (Entries chart) (upper_bound (Entries chart) t) of
             None \<Rightarrow> Inl DecrementBegin
           | Some k \<Rightarrow> Inr (second (Entries chart) k))"

text \<open>
  The loop of \<^verbatim>\<open>Occupy\<close> over the keys still to visit, with the keys already changed
  (latest first). When a value exceeds the capacity,
  \<^verbatim>\<open>do it->second -= occ; while(it-- != itfrom);\<close> takes \<open>occ\<close> off again from this entry
  back to \<open>itfrom\<close>, and its last \<^verbatim>\<open>it--\<close> steps before \<open>itfrom\<close>.
\<close>

definition undo :: "(int \<Rightarrow> int) \<Rightarrow> Time list \<Rightarrow> (Time \<times> int) list \<Rightarrow> (Time \<times> int) list" where
  "undo back changed es = fold (\<lambda>k es. set_second k (back (second es k)) es) changed es"

fun occupy_loop ::
  "int \<Rightarrow> int \<Rightarrow> Time \<Rightarrow> Time list \<Rightarrow> Time list \<Rightarrow> (Time \<times> int) list
   \<Rightarrow> chart_error + bool \<times> (Time \<times> int) list" where
  "occupy_loop cap occ itfrom changed [] es = Inr (True, es)"
| "occupy_loop cap occ itfrom changed (it # its) es =
     (let es' = set_second it (second es it + occ) es
      in if second es' it > cap
         then (case prev_it es' (Some itfrom) of
                 None \<Rightarrow> Inl DecrementBegin
               | Some p \<Rightarrow> Inr (False, undo (\<lambda>v. v - occ) (it # changed) es'))
         else occupy_loop cap occ itfrom (it # changed) its es')"

fun unoccupy_loop ::
  "int \<Rightarrow> Time \<Rightarrow> Time list \<Rightarrow> Time list \<Rightarrow> (Time \<times> int) list
   \<Rightarrow> chart_error + bool \<times> (Time \<times> int) list" where
  "unoccupy_loop occ itfrom changed [] es = Inr (True, es)"
| "unoccupy_loop occ itfrom changed (it # its) es =
     (let es' = set_second it (second es it - occ) es
      in if second es' it < 0
         then (case prev_it es' (Some itfrom) of
                 None \<Rightarrow> Inl DecrementBegin
               | Some p \<Rightarrow> Inr (False, undo (\<lambda>v. v + occ) (it # changed) es'))
         else unoccupy_loop occ itfrom (it # changed) its es')"

text \<open>
  The end of both functions: the entry at \<open>from\<close> is inserted, or erased when it repeats
  the value before it; then the same for the entry at \<open>to\<close>.
\<close>

definition fix_from ::
  "Time \<Rightarrow> Time \<Rightarrow> int \<Rightarrow> (Time \<times> int) list \<Rightarrow> chart_error + (Time \<times> int) list" where
  "fix_from itfrom from fromval es =
     (if itfrom \<noteq> from then Inr (emplace from fromval es)
      else case prev_it es (Some itfrom) of
             None \<Rightarrow> Inl PrevOfBegin
           | Some p \<Rightarrow> Inr (if second es itfrom = second es p then erase itfrom es else es))"

definition fix_to ::
  "iterator \<Rightarrow> Time \<Rightarrow> int \<Rightarrow> (Time \<times> int) list \<Rightarrow> chart_error + (Time \<times> int) list" where
  "fix_to itto to toval es =
     (if itto = None \<or> itto \<noteq> Some to then Inr (emplace to toval es)
      else case prev_it es itto of
             None \<Rightarrow> Inl PrevOfBegin
           | Some p \<Rightarrow> Inr (if second es to = second es p then erase to es else es))"

definition Occupy ::
  "OccupationChart \<Rightarrow> Time \<Rightarrow> Time \<Rightarrow> int \<Rightarrow> chart_error + bool \<times> OccupationChart" where
  "Occupy chart from to occ =
     (let es = Entries chart in
      if \<not> (from \<ge> 0 \<and> to > from) then Inl AssertionFailed
      else case lower_bound es from of
        None \<Rightarrow> Inl AssertionFailed
      | Some itfrom \<Rightarrow>
         (let itto = upper_bound es from in
          case prev_it es itto of
            None \<Rightarrow> Inl PrevOfBegin
          | Some p \<Rightarrow>
             (let toval = second es p;
                  fromval = second es itfrom + occ
              in if itfrom \<noteq> from \<and> fromval > Capacity chart then Inr (False, chart)
                 else case occupy_loop (Capacity chart) occ itfrom [] (visited es itfrom itto) es of
                    Inl e \<Rightarrow> Inl e
                  | Inr (False, es1) \<Rightarrow> Inr (False, chart\<lparr>Entries := es1\<rparr>)
                  | Inr (True, es1) \<Rightarrow>
                     (case fix_from itfrom from fromval es1 of
                        Inl e \<Rightarrow> Inl e
                      | Inr es2 \<Rightarrow>
                         (case fix_to itto to toval es2 of
                            Inl e \<Rightarrow> Inl e
                          | Inr es3 \<Rightarrow> Inr (True, chart\<lparr>Entries := es3\<rparr>))))))"

definition Unoccupy ::
  "OccupationChart \<Rightarrow> Time \<Rightarrow> Time \<Rightarrow> int \<Rightarrow> chart_error + bool \<times> OccupationChart" where
  "Unoccupy chart from to occ =
     (let es = Entries chart in
      if \<not> (from \<ge> 0 \<and> to > from) then Inl AssertionFailed
      else case lower_bound es from of
        None \<Rightarrow> Inl AssertionFailed
      | Some itfrom \<Rightarrow>
         (let itto = lower_bound es to in
          case prev_it es itto of
            None \<Rightarrow> Inl PrevOfBegin
          | Some p \<Rightarrow>
             (let toval = second es p;
                  fromval = second es itfrom - occ
              in if itfrom \<noteq> from \<and> fromval < Capacity chart then Inr (False, chart)
                 else case unoccupy_loop occ itfrom [] (visited es itfrom itto) es of
                    Inl e \<Rightarrow> Inl e
                  | Inr (False, es1) \<Rightarrow> Inr (False, chart\<lparr>Entries := es1\<rparr>)
                  | Inr (True, es1) \<Rightarrow>
                     (case fix_from itfrom from fromval es1 of
                        Inl e \<Rightarrow> Inl e
                      | Inr es2 \<Rightarrow>
                         (case fix_to itto to toval es2 of
                            Inl e \<Rightarrow> Inl e
                          | Inr es3 \<Rightarrow> Inr (True, chart\<lparr>Entries := es3\<rparr>))))))"

text \<open>A chart of capacity 10 that holds 3 units over \<open>[5, 10)\<close>, and one with 2 units over \<open>[0, 10)\<close>.\<close>

definition chart_3_from_5 :: OccupationChart where
  "chart_3_from_5 = \<lparr>Capacity = 10, Entries = [(0, 0), (5, 3), (10, 0)]\<rparr>"

definition chart_2_from_0 :: OccupationChart where
  "chart_2_from_0 = \<lparr>Capacity = 10, Entries = [(0, 2), (10, 0)]\<rparr>"

section \<open>Space divisions (spacedivision.h)\<close>

text \<open>
  A \<^verbatim>\<open>SpaceDivision<AssignType>\<close> holds \<^verbatim>\<open>FullSpace_\<close> and \<^verbatim>\<open>Sections_\<close>, a
  \<^verbatim>\<open>std::unordered_multimap<AssignType, Space>\<close>. The order in which such a map is walked
  is not specified; the model keeps the entries in a list, a new entry at the end and the
  pieces of a trimmed entry at the place of that entry.
\<close>

record 'a SpaceDivision =
  FullSpace :: Space
  Sections :: "('a \<times> Space) list"

definition SpaceDivision :: "Space \<Rightarrow> 'a SpaceDivision" where
  "SpaceDivision fullspace = \<lparr>FullSpace = fullspace, Sections = []\<rparr>"

definition FindOverlaps :: "'a SpaceDivision \<Rightarrow> Space \<Rightarrow> ('a \<times> Space) list" where
  "FindOverlaps sd s = filter (\<lambda>(assign, t). Space_Overlaps t s) (Sections sd)"

text \<open>
  The loop of \<^verbatim>\<open>TrimSection\<close> over the dimensions \<open>i\<close>: for every range that
  \<^verbatim>\<open>RangeSubtract(trim[i], remove[i], diff)\<close> leaves, an entry is made from \<open>trim\<close> with
  that range at \<open>i\<close>; then \<open>trim[i]\<close> becomes the intersection, for the entries of the
  dimensions behind. So the entries made at the first dimension keep the other ranges of
  \<open>trim\<close>, and all later entries start with the intersection.
\<close>

fun trim_pieces :: "Space \<Rightarrow> Space \<Rightarrow> Space list" where
  "trim_pieces (t # trim) (r # remove) =
     map (\<lambda>d. d # trim) (RangeSubtract t r) @
     map (\<lambda>piece. Range_inter t r # piece) (trim_pieces trim remove)"
| "trim_pieces trim remove = []"

text \<open>\<^verbatim>\<open>TrimSection\<close> erases the entry and emplaces the pieces under the same key.\<close>

definition TrimSection :: "'a \<times> Space \<Rightarrow> Space \<Rightarrow> ('a \<times> Space) list" where
  "TrimSection ittrim remove = map (Pair (fst ittrim)) (trim_pieces (snd ittrim) remove)"

text \<open>
  \<^verbatim>\<open>AssignSection\<close> first collects the overlapping entries and then trims each of them;
  the pieces are new entries and not among the collected ones.
\<close>

definition AssignSection :: "'a SpaceDivision \<Rightarrow> Space \<Rightarrow> 'a \<Rightarrow> 'a SpaceDivision" where
  "AssignSection sd sec assign =
     (let sec' = Space_inter sec (FullSpace sd)
      in if Space_IsEmpty sec' then sd
         else sd\<lparr>Sections :=
                concat (map (\<lambda>entry. if entry \<in> set (FindOverlaps sd sec')
                                       then TrimSection entry sec' else [entry])
                         (Sections sd))
                @ [(assign, sec')]\<rparr>)"

definition Unassign :: "'a SpaceDivision \<Rightarrow> 'a \<Rightarrow> 'a SpaceDivision" where
  "Unassign sd unassign = sd\<lparr>Sections := filter (\<lambda>(assign, s). assign \<noteq> unassign) (Sections sd)\<rparr>"

definition SubDivision :: "'a SpaceDivision \<Rightarrow> Space \<Rightarrow> 'a SpaceDivision" where
  "SubDivision sd subspace =
     \<lparr>FullSpace = subspace,
      Sections = filter (\<lambda>(assign, s). \<not> Space_IsEmpty s)
                   (map (\<lambda>(assign, s). (assign, Space_inter s subspace)) (Sections sd))\<rparr>"

definition GetEnvelope :: "'a SpaceDivision \<Rightarrow> 'a \<Rightarrow> Space" where
  "GetEnvelope sd find_assign =
     (case filter (\<lambda>(assign, s). assign = find_assign) (Sections sd) of
        [] \<Rightarrow> Space_Clear (FullSpace sd)
      | (assign, first) # rest \<Rightarrow> fold (\<lambda>(assign, s) ret. Space_union ret s) rest first)"

text \<open>
  Sequences of the three operations on one division. \<^verbatim>\<open>SubDivision\<close> returns a new
  division, with which the sequence goes on. The spaces passed in must have the
  dimensionality of the division, as the source asserts.
\<close>

datatype 'a division_op = DoAssign Space 'a | DoUnassign 'a | DoSubDivision Space

fun apply_op :: "'a division_op \<Rightarrow> 'a SpaceDivision \<Rightarrow> 'a SpaceDivision" where
  "apply_op (DoAssign sec assign) sd = AssignSection sd sec assign"
| "apply_op (DoUnassign unassign) sd = Unassign sd unassign"
| "apply_op (DoSubDivision subspace) sd = SubDivision sd subspace"

fun op_fits :: "nat \<Rightarrow> 'a division_op \<Rightarrow> bool" where
  "op_fits n (DoAssign sec assign) = (Dimensions sec = n)"
| "op_fits n (DoUnassign unassign) = True"
| "op_fits n (DoSubDivision subspace) = (Dimensions subspace = n)"

text \<open>
  The invariant, with the predicates of the source: every stored space has the dimensionality
  of the full space, is not empty and is contained in the full space, and no two stored
  spaces overlap.
\<close>

fun no_overlaps :: "Space list \<Rightarrow> bool" where
  "no_overlaps [] = True"
| "no_overlaps (s # ss) = (list_all (\<lambda>t. \<not> Space_Overlaps s t) ss \<and> no_overlaps ss)"

definition SpaceDivision_inv :: "'a SpaceDivision \<Rightarrow> bool" where
  "SpaceDivision_inv sd \<longleftrightarrow>
     list_all (\<lambda>(assign, s). Dimensions s = Dimensions (FullSpace sd) \<and> \<not> Space_IsEmpty s \<and>
                              Space_Contains (FullSpace sd) s) (Sections sd) \<and>
     no_overlaps (map snd (Sections sd))"

text \<open>The same for the index points: pairwise disjoint sets of points.\<close>

fun disjoint_points :: "Space list \<Rightarrow> bool" where
  "disjoint_points [] = True"
| "disjoint_points (s # ss) =
     (list_all (\<lambda>t. Space_points s \<inter> Space_points t = {}) ss \<and> disjoint_points ss)"

text \<open>What \<^verbatim>\<open>AssignSection\<close> puts in the place of a stored space \<open>s\<close>.\<close>

definition trimmed :: "Space \<Rightarrow> Space \<Rightarrow> Space list" where
  "trimmed remove s = (if Space_Overlaps s remove then trim_pieces s remove else [s])"

text \<open>Two assignments on a division of four by four cells.\<close>

definition division_ops :: "nat division_op list" where
  "division_ops =
     [DoAssign [BeginEnd 0 4, BeginEnd 0 4] 1, DoAssign [BeginEnd 1 3, BeginEnd 1 9] 2]"

section \<open>Program data model (packet.h, kernel.h, task.h, dependency.h, metakernel.h)\<close>

datatype AccessType = Access_invalid | Access_in | Access_out | Access_inout | Access_param

definition IsCompatible :: "BaseType \<Rightarrow> BaseType \<Rightarrow> bool" where
  "IsCompatible this bt \<longleftrightarrow> Size bt = Size this"

record Packet =
  Packet_Name :: string
  Access :: AccessType
  Packet_BaseType :: BaseType
  ArrayDims :: "int list"

record Kernel =
  Kernel_Name :: string
  Packets :: "Packet list"

text \<open>
  An \<^verbatim>\<open>Iface\<close> knows its task (here by the task's name) and its packet. The members
  \<^verbatim>\<open>PosHint\<close> and \<^verbatim>\<open>BufferHint\<close> are not set by the constructor.
\<close>

record Iface =
  Iface_Task :: string
  Iface_Packet :: Packet
  Iface_Dimensions :: "int list"
  PosHint :: "Space option"
  BufferHint :: "int option"

record Task =
  Task_Kernel :: Kernel
  Task_Params :: "int list"
  Task_DerivedParams :: "int list"
  Task_Name :: string
  Ifaces :: "Iface list"

text \<open>
  A negative array dimension \<open>dim\<close> stands for the derived parameter number \<open>- dim - 1\<close>.
  The source indexes the vector without a check.
\<close>

definition derived :: "int list \<Rightarrow> int \<Rightarrow> int" where
  "derived derivedparams dim = (if dim < 0 then derivedparams ! nat (- dim - 1) else dim)"

definition FillIfaces :: "Kernel \<Rightarrow> string \<Rightarrow> int list \<Rightarrow> Iface list" where
  "FillIfaces krn name derivedparams =
     map (\<lambda>packet. \<lparr>Iface_Task = name, Iface_Packet = packet,
                      Iface_Dimensions = map (derived derivedparams) (ArrayDims packet),
                      PosHint = None, BufferHint = None\<rparr>)
       (Packets krn)"

definition new_Task :: "Kernel \<Rightarrow> string \<Rightarrow> int list \<Rightarrow> int list \<Rightarrow> Task" where
  "new_Task krn name parameters derivedParams =
     \<lparr>Task_Kernel = krn, Task_Params = parameters, Task_DerivedParams = derivedParams,
      Task_Name = name, Ifaces = FillIfaces krn name derivedParams\<rparr>"

text \<open>The anchor holds a pointer to its interface: \<open>None\<close> is the null pointer.\<close>

record Anchor =
  TheIface :: "Iface option"
  Index :: Space

record Dependency =
  From :: Anchor
  To :: Anchor

text \<open>\<^verbatim>\<open>CheckCompatibility\<close> dereferences both pointers; \<open>None\<close> if one of them is null.\<close>

definition CheckCompatibility :: "Dependency \<Rightarrow> bool option" where
  "CheckCompatibility d =
     (case (TheIface (From d), TheIface (To d)) of
        (Some fromiface, Some toiface) \<Rightarrow>
          Some (IsCompatible (Packet_BaseType (Iface_Packet fromiface))
                             (Packet_BaseType (Iface_Packet toiface)) \<and>
                GetEffectiveDimensions (Index (From d)) = GetEffectiveDimensions (Index (To d)))
      | _ \<Rightarrow> None)"

text \<open>The bytes an anchor stands for: the volume of its index space times the size of its base type.\<close>

definition Anchor_bytes :: "Anchor \<Rightarrow> int option" where
  "Anchor_bytes a =
     map_option (\<lambda>iface. GetVolume (Index a) * Size (Packet_BaseType (Iface_Packet iface)))
       (TheIface a)"

definition GetMemSize :: "Dependency \<Rightarrow> int option" where
  "GetMemSize d = Anchor_bytes (From d)"

record MetaKernel = Kernel +
  Tasks :: "Task list"
  Inputs :: Task
  Outputs :: Task
  Dependencies :: "Dependency list"

definition InitInterface :: "MetaKernel \<Rightarrow> MetaKernel" where
  "InitInterface mk =
     mk\<lparr>Inputs := new_Task (Kernel.truncate mk) ''<meta-kernel inputs>'' [] [],
        Outputs := new_Task (Kernel.truncate mk) ''<meta-kernel outputs>'' [] []\<rparr>"

section \<open>Kernel calls (metakernelseq.h, metakernelseq.cpp)\<close>

text \<open>
  An argument points to its variable: a packet in \<^verbatim>\<open>MetaKernelSeq::Variables\<close> or a packet of
  the meta-kernel itself. A pointer is the container and the position in it.
\<close>

datatype packet_ptr = VariablePtr nat | PacketPtr nat

datatype argument_error =
    TooManyIndexingOperations
  | OutOfBoundsAccess nat string
  | ZeroSizedRange nat string

record Argument =
  Variable :: packet_ptr
  Indices :: Space
  RelevantDims :: "nat list"
  ResultingDim :: "int list"
  Argument_ErrorDesc :: "argument_error list"
  Argument_Iface :: "Iface option"
  Argument_BufferHint :: int

definition Argument_IsValid :: "Argument \<Rightarrow> bool" where
  "Argument_IsValid arg \<longleftrightarrow> Argument_ErrorDesc arg = []"

text \<open>
  The constructor of \<^verbatim>\<open>Argument\<close>, with the packet that \<open>variable\<close> points to: the index
  space is cut or filled up to the dimensions of the variable, and every range is checked.
\<close>

definition index_errors :: "string \<Rightarrow> int list \<Rightarrow> Space \<Rightarrow> argument_error list" where
  "index_errors name vdims indices =
     concat (map (\<lambda>i. (if \<not> Range_Contains (BeginCount 0 (vdims ! i)) (indices ! i)
                        then [OutOfBoundsAccess (i + 1) name] else []) @
                       (if Range_size (indices ! i) = 0 then [ZeroSizedRange (i + 1) name] else []))
             [0..<length indices])"

definition new_Argument :: "packet_ptr \<Rightarrow> Packet \<Rightarrow> Space \<Rightarrow> Argument" where
  "new_Argument variable packet indices =
     (let vdims = ArrayDims packet;
          oldsize = length indices;
          indices' = (if oldsize > length vdims then take (length vdims) indices
                      else indices @ map (BeginCount 0) (drop oldsize vdims))
      in \<lparr>Variable = variable, Indices = indices', RelevantDims = [],
          ResultingDim = filter (\<lambda>size. size \<noteq> 0 \<and> size \<noteq> 1) (map Range_size indices'),
          Argument_ErrorDesc =
            (if oldsize > length vdims then [TooManyIndexingOperations] else []) @
            index_errors (Packet_Name packet) vdims indices',
          Argument_Iface = None, Argument_BufferHint = - 1\<rparr>)"

datatype call_error =
    WrongNumberOfArguments
  | IncompatibleBaseType nat string string
  | IncompatibleAccessType nat AccessType AccessType
  | IncompatibleBlockSize nat "int list" "int list"

record KernelCall =
  Callee :: Kernel
  Args :: "Argument list"
  Params :: "int list"
  DerivedParams :: "int list"
  KernelCall_ErrorDesc :: "call_error list"
  Valid :: bool

text \<open>
  \<^verbatim>\<open>while(cursize == 1 && suppidx > 0) cursize = indices[--suppidx].size();\<close>
\<close>

fun skip_ones :: "Space \<Rightarrow> int \<Rightarrow> nat \<Rightarrow> int \<times> nat" where
  "skip_ones indices cursize 0 = (cursize, 0)"
| "skip_ones indices cursize (Suc suppidx) =
     (if cursize = 1 then skip_ones indices (Range_size (indices ! suppidx)) suppidx
      else (cursize, Suc suppidx))"

text \<open>
  The loop \<^verbatim>\<open>for(int i = argdims.size(); i-- > 0; )\<close> that matches the dimensions the
  callee asks for, last one first, with the ranges of the argument. It is given the
  dimensions still to match in the order of the loop, and returns the entries of
  \<^verbatim>\<open>RelevantDims_\<close> in that order (0 where the \<^verbatim>\<open>break\<close> left the entry untouched), the
  final \<open>suppidx\<close> and whether it came to its end without the error.
\<close>

fun match_dims :: "int list \<Rightarrow> int list \<Rightarrow> Space \<Rightarrow> nat \<Rightarrow> nat list \<times> nat \<times> bool" where
  "match_dims derivedparams [] indices suppidx = ([], suppidx, True)"
| "match_dims derivedparams (argdim # argdims) indices suppidx =
     (let curargdim = derived derivedparams argdim;
          (cursize, suppidx1) =
             (if suppidx \<noteq> 0 then (Range_size (indices ! (suppidx - 1)), suppidx - 1)
              else (- 1, suppidx));
          (cursize, suppidx2) =
             (if cursize \<noteq> curargdim then skip_ones indices cursize suppidx1
              else (cursize, suppidx1))
      in if cursize \<noteq> curargdim then (replicate (Suc (length argdims)) 0, 0, False)
         else (let (rest, suppidx3, ok) = match_dims derivedparams argdims indices suppidx2
               in (suppidx2 # rest, suppidx3, ok)))"

text \<open>
  One round of the loop over the arguments: the argument with its \<^verbatim>\<open>RelevantDims_\<close>, the
  errors added, and whether the loop was left by the last \<^verbatim>\<open>break\<close>.
\<close>

definition check_argument ::
  "int list \<Rightarrow> nat \<Rightarrow> nat \<Rightarrow> Packet \<Rightarrow> Packet \<Rightarrow> Argument
   \<Rightarrow> Argument \<times> call_error list \<times> bool" where
  "check_argument derivedparams nparams argidx supply demand arg =
     (let argdims = map (derived derivedparams) (ArrayDims demand);
          indices = Indices arg;
          (reldims, suppidx, ok) = match_dims derivedparams (rev argdims) indices (length indices);
          blocksize = IncompatibleBlockSize (nparams + argidx + 1) (ResultingDim arg) argdims;
          leading = list_ex (\<lambda>r. Range_size r \<noteq> 1) (take suppidx indices)
      in (arg\<lparr>RelevantDims := rev reldims\<rparr>,
          (if \<not> IsCompatible (Packet_BaseType supply) (Packet_BaseType demand)
           then [IncompatibleBaseType (argidx + 1) (Name (Packet_BaseType supply))
                   (Name (Packet_BaseType demand))] else []) @
          (if Access supply = Access_in \<and> Access demand \<noteq> Access_in
           then [IncompatibleAccessType (argidx + 1) (Access supply) (Access demand)] else []) @
          (if \<not> ok then [blocksize] else []) @
          (if leading then [blocksize] else []),
          leading))"

fun check_arguments ::
  "(packet_ptr \<Rightarrow> Packet) \<Rightarrow> int list \<Rightarrow> nat \<Rightarrow> nat \<Rightarrow> Packet list \<Rightarrow> Argument list
   \<Rightarrow> Argument list \<times> call_error list" where
  "check_arguments deref derivedparams nparams argidx (demand # packets) (arg # args) =
     (let (arg', errs, stop) =
            check_argument derivedparams nparams argidx (deref (Variable arg)) demand arg
      in if stop then (arg' # args, errs)
         else (let (args', errs') =
                     check_arguments deref derivedparams nparams (Suc argidx) packets args
               in (arg' # args', errs @ errs')))"
| "check_arguments deref derivedparams nparams argidx packets args = (args, [])"

text \<open>The constructor of \<^verbatim>\<open>KernelCall\<close>; \<open>deref\<close> reads the packet a pointer points to.\<close>

definition new_KernelCall ::
  "(packet_ptr \<Rightarrow> Packet) \<Rightarrow> Kernel \<Rightarrow> Argument list \<Rightarrow> int list \<Rightarrow> int list \<Rightarrow> KernelCall" where
  "new_KernelCall deref callee args params derivedparams =
     (if length args \<noteq> length (Packets callee)
      then \<lparr>Callee = callee, Args = args, Params = params, DerivedParams = derivedparams,
            KernelCall_ErrorDesc = [WrongNumberOfArguments], Valid = False\<rparr>
      else (let (args', errs) =
                  check_arguments deref derivedparams (length params) 0 (Packets callee) args
            in \<lparr>Callee = callee, Args = args', Params = params, DerivedParams = derivedparams,
                KernelCall_ErrorDesc = errs,
                Valid = (if errs = [] then list_all Argument_IsValid args' else False)\<rparr>))"

section \<open>Dataflow resolution (MetaKernelSeq::TranslateToMetaKernel)\<close>

record MetaKernelSeq =
  Variables :: "Packet list"
  Operations :: "KernelCall list"
  pMetaKernel :: MetaKernel

definition packet_at :: "MetaKernelSeq \<Rightarrow> packet_ptr \<Rightarrow> Packet" where
  "packet_at ms p =
     (case p of VariablePtr i \<Rightarrow> Variables ms ! i | PacketPtr i \<Rightarrow> Packets (pMetaKernel ms) ! i)"

text \<open>
  The text appended to \<open>errors\<close> is kept as a list of messages, each with the names and the
  index space that are printed. \<^verbatim>\<open>defs.at\<close> throws when the key is missing, and the
  assertion on the arguments made for the meta-kernel's own packets may fail.
\<close>

datatype flow_error =
    UninitializedInput string string Space
  | UnspecifiedOutput string Space

datatype flow_abort = ArgumentNotValid | KeyNotFound

definition IndicesAbsToRel :: "Space \<Rightarrow> Space \<Rightarrow> nat list \<Rightarrow> Space" where
  "IndicesAbsToRel absolute reference relvdims =
     map (\<lambda>dim. Range_shift (absolute ! dim) (- Range_first (reference ! dim))) relvdims"

text \<open>\<^verbatim>\<open>%d\<close> for a count.\<close>

fun string_of_nat :: "nat \<Rightarrow> string" where
  "string_of_nat n =
     (if n < 10 then [char_of (48 + n)]
      else string_of_nat (n div 10) @ [char_of (48 + n mod 10)])"

type_synonym definitions = "packet_ptr \<rightharpoonup> Argument option SpaceDivision"

record flow_state =
  defs :: definitions
  instcounts :: "Kernel \<Rightarrow> nat"
  new_tasks :: "Task list"
  new_dependencies :: "Dependency list"
  errors :: "flow_error list"

text \<open>
  The division of a variable at the start: everything assigned to \<open>assign\<close>. The keys of
  \<^verbatim>\<open>defs\<close> are the addresses of the packets, and every packet is visited once, so that
  \<^verbatim>\<open>emplace\<close> makes a new division each time.
\<close>

definition whole :: "Packet \<Rightarrow> Argument option \<Rightarrow> Argument option SpaceDivision" where
  "whole packet assign =
     (let division = SpaceDivision (Space_of_dims (ArrayDims packet))
      in AssignSection division (FullSpace division) assign)"

fun init_variables :: "nat \<Rightarrow> Packet list \<Rightarrow> definitions \<Rightarrow> definitions" where
  "init_variables i [] d = d"
| "init_variables i (uppacket # variables) d =
     init_variables (Suc i) variables (d(VariablePtr i \<mapsto> whole uppacket None))"

text \<open>
  The element of \<^verbatim>\<open>mkargs\<close> for the packet number \<open>i\<close> of the meta-kernel: as the
  constructor leaves it, and with its relevant dimensions and its interface.
\<close>

definition new_mkarg :: "MetaKernel \<Rightarrow> nat \<Rightarrow> Argument" where
  "new_mkarg mk i =
     (let packet = Packets mk ! i
      in new_Argument (PacketPtr i) packet (Space_of_dims (ArrayDims packet)))"

definition mkarg :: "MetaKernel \<Rightarrow> nat \<Rightarrow> Argument" where
  "mkarg mk i =
     (new_mkarg mk i)\<lparr>RelevantDims := [0..<length (ArrayDims (Packets mk ! i))],
                        Argument_Iface := Some (Ifaces (Inputs mk) ! i)\<rparr>"

text \<open>
  \<^verbatim>\<open>for(auto i = mk.Packets.size(); i-- > 0; )\<close>, given the number \<open>i\<close> of packets still to
  visit.
\<close>

fun init_packets :: "MetaKernel \<Rightarrow> nat \<Rightarrow> definitions \<Rightarrow> flow_abort + definitions" where
  "init_packets mk 0 d = Inr d"
| "init_packets mk (Suc i) d =
     (let packet = Packets mk ! i in
      if Access packet = Access_out
      then init_packets mk i (d(PacketPtr i \<mapsto> whole packet None))
      else if \<not> Argument_IsValid (new_mkarg mk i) then Inl ArgumentNotValid
      else init_packets mk i (d(PacketPtr i \<mapsto> whole packet (Some (mkarg mk i)))))"

text \<open>
  The dependency of the reader \<open>iface\<close>, with its index space \<open>indices\<close> and its relevant
  dimensions, on the definition \<open>pdef\<close> in the region \<open>defrange\<close>.
\<close>

definition Anchor_of :: "Iface option \<Rightarrow> Space \<Rightarrow> Anchor" where
  "Anchor_of piface index = \<lparr>TheIface = piface, Index = index\<rparr>"

definition from_anchor :: "Argument \<Rightarrow> Space \<Rightarrow> Anchor" where
  "from_anchor pdef defrange =
     Anchor_of (Argument_Iface pdef) (IndicesAbsToRel defrange (Indices pdef) (RelevantDims pdef))"

text \<open>The loop over the sections of the sub-division, for one argument that is read.\<close>

fun read_sections ::
  "string \<Rightarrow> string \<Rightarrow> Argument \<Rightarrow> (Argument option \<times> Space) list \<Rightarrow> flow_state \<Rightarrow> flow_state" where
  "read_sections task var arg [] st = st"
| "read_sections task var arg ((pdef, defrange) # secs) st =
     read_sections task var arg secs
       (case pdef of
          None \<Rightarrow> st\<lparr>errors := errors st @ [UninitializedInput task var defrange]\<rparr>
        | Some dfn \<Rightarrow>
            st\<lparr>new_dependencies := new_dependencies st @
                  [\<lparr>From = from_anchor dfn defrange,
                    To = Anchor_of (Argument_Iface arg)
                           (IndicesAbsToRel defrange (Indices arg) (RelevantDims arg))\<rparr>]\<rparr>)"

definition callee_access :: "Argument \<Rightarrow> AccessType" where
  "callee_access arg =
     (case Argument_Iface arg of Some iface \<Rightarrow> Access (Iface_Packet iface)
      | None \<Rightarrow> Access_invalid)"

fun handle_inputs ::
  "MetaKernelSeq \<Rightarrow> string \<Rightarrow> Argument list \<Rightarrow> flow_state \<Rightarrow> flow_abort + flow_state" where
  "handle_inputs ms task [] st = Inr st"
| "handle_inputs ms task (arg # args) st =
     (if callee_access arg = Access_out then handle_inputs ms task args st
      else case defs st (Variable arg) of
             None \<Rightarrow> Inl KeyNotFound
           | Some vardefs \<Rightarrow>
               handle_inputs ms task args
                 (read_sections task (Packet_Name (packet_at ms (Variable arg))) arg
                    (Sections (SubDivision vardefs (Indices arg))) st))"

fun handle_outputs :: "Argument list \<Rightarrow> flow_state \<Rightarrow> flow_abort + flow_state" where
  "handle_outputs [] st = Inr st"
| "handle_outputs (arg # args) st =
     (if callee_access arg = Access_in then handle_outputs args st
      else case defs st (Variable arg) of
             None \<Rightarrow> Inl KeyNotFound
           | Some vardefs \<Rightarrow>
               handle_outputs args
                 (st\<lparr>defs := (defs st)(Variable arg \<mapsto>
                                 AssignSection vardefs (Indices arg) (Some arg))\<rparr>))"

text \<open>
  One operation: the task is made, every argument gets its interface, which takes the
  hints of the argument; then the inputs, then the outputs.
\<close>

definition task_name :: "Kernel \<Rightarrow> nat \<Rightarrow> string" where
  "task_name krn count = Kernel_Name krn @ ''['' @ string_of_nat count @ '']''"

definition assign_interfaces :: "Task \<Rightarrow> Argument list \<Rightarrow> Task \<times> Argument list" where
  "assign_interfaces task args =
     (let ifaces = map2 (\<lambda>iface arg. iface\<lparr>PosHint := Some (Indices arg),
                                              BufferHint := Some (Argument_BufferHint arg)\<rparr>)
                     (Ifaces task) args
      in (task\<lparr>Ifaces := ifaces @ drop (length args) (Ifaces task)\<rparr>,
          map2 (\<lambda>arg iface. arg\<lparr>Argument_Iface := Some iface\<rparr>) args ifaces))"

definition process_operation ::
  "MetaKernelSeq \<Rightarrow> KernelCall \<Rightarrow> flow_state \<Rightarrow> flow_abort + flow_state" where
  "process_operation ms op st =
     (let krn = Callee op;
          name = task_name krn (instcounts st krn);
          st1 = st\<lparr>instcounts := (instcounts st)(krn := Suc (instcounts st krn))\<rparr>;
          (task, args) = assign_interfaces (new_Task krn name (Params op) (DerivedParams op))
                           (Args op)
      in case handle_inputs ms name args st1 of
           Inl a \<Rightarrow> Inl a
         | Inr st2 \<Rightarrow>
             (case handle_outputs args st2 of
                Inl a \<Rightarrow> Inl a
              | Inr st3 \<Rightarrow> Inr (st3\<lparr>new_tasks := new_tasks st3 @ [task]\<rparr>)))"

fun process_operations ::
  "MetaKernelSeq \<Rightarrow> KernelCall list \<Rightarrow> flow_state \<Rightarrow> flow_abort + flow_state" where
  "process_operations ms [] st = Inr st"
| "process_operations ms (op # ops) st =
     (case process_operation ms op st of
        Inl a \<Rightarrow> Inl a
      | Inr st' \<Rightarrow> process_operations ms ops st')"

text \<open>The last loop: what lives in the packets of the meta-kernel that are not inputs.\<close>

fun output_sections ::
  "MetaKernel \<Rightarrow> nat \<Rightarrow> Packet \<Rightarrow> (Argument option \<times> Space) list \<Rightarrow> flow_state \<Rightarrow> flow_state" where
  "output_sections mk i packet [] st = st"
| "output_sections mk i packet ((pdef, defrange) # secs) st =
     output_sections mk i packet secs
       (case pdef of
          Some dfn \<Rightarrow>
            st\<lparr>new_dependencies := new_dependencies st @
                  [\<lparr>From = from_anchor dfn defrange,
                    To = Anchor_of (Some (Ifaces (Outputs mk) ! i)) defrange\<rparr>]\<rparr>
        | None \<Rightarrow>
            if Access packet = Access_out
            then st\<lparr>errors := errors st @ [UnspecifiedOutput (Packet_Name packet) defrange]\<rparr>
            else st)"

fun check_outputs :: "MetaKernel \<Rightarrow> nat list \<Rightarrow> flow_state \<Rightarrow> flow_abort + flow_state" where
  "check_outputs mk [] st = Inr st"
| "check_outputs mk (i # rest) st =
     (let packet = Packets mk ! i in
      if Access packet = Access_in then check_outputs mk rest st
      else case defs st (PacketPtr i) of
             None \<Rightarrow> Inl KeyNotFound
           | Some d \<Rightarrow> check_outputs mk rest (output_sections mk i packet (Sections d) st))"

text \<open>
  \<^verbatim>\<open>TranslateToMetaKernel\<close> gets \<open>errors\<close> by reference and changes the meta-kernel it points
  to: the result is the return value, the errors and the meta-kernel afterwards.
\<close>

definition TranslateToMetaKernel ::
  "MetaKernelSeq \<Rightarrow> flow_error list \<Rightarrow> flow_abort + bool \<times> flow_error list \<times> MetaKernel" where
  "TranslateToMetaKernel ms errs =
     (let mk = pMetaKernel ms in
      if \<not> list_all Valid (Operations ms) then Inr (False, errs, mk)
      else case init_packets mk (length (Packets mk))
                  (init_variables 0 (Variables ms) Map.empty) of
             Inl a \<Rightarrow> Inl a
           | Inr d \<Rightarrow>
              (case process_operations ms (Operations ms)
                      \<lparr>defs = d, instcounts = (\<lambda>k. 0), new_tasks = [], new_dependencies = [],
                       errors = errs\<rparr> of
                 Inl a \<Rightarrow> Inl a
               | Inr st \<Rightarrow>
                  (case check_outputs mk [0..<length (Packets mk)] st of
                     Inl a \<Rightarrow> Inl a
                   | Inr st' \<Rightarrow>
                       Inr (errors st' = [], errors st',
                            mk\<lparr>Tasks := Tasks mk @ new_tasks st',
                               Dependencies := Dependencies mk @ new_dependencies st'\<rparr>))))"

section \<open>What the dataflow resolution is given, and what it keeps\<close>

text \<open>
  The cells of a division that are assigned to something (or to the null pointer).
\<close>

definition covered_points :: "'a SpaceDivision \<Rightarrow> int list set" where
  "covered_points d = (\<Union>e \<in> set (Sections d). Space_points (snd e))"

text \<open>
  What the front end (\<^verbatim>\<open>KernelCallParser\<close>) hands over: the operations are made by the two
  constructors from the kernel, the arguments (variable, index space and buffer hint) and the
  parameters of each call; every argument points to a variable or to a packet of the
  meta-kernel; the derived parameters are strictly positive, as the parser demands, and an array
  dimension of the callee is a number or stands for one of them; the meta-kernel has its
  \<^verbatim>\<open>Inputs\<close> and \<^verbatim>\<open>Outputs\<close> from \<^verbatim>\<open>InitInterface\<close>; its packets are inputs or outputs
  with positive dimensions.
\<close>

type_synonym raw_argument = "packet_ptr \<times> Space \<times> int"

type_synonym raw_call = "Kernel \<times> raw_argument list \<times> int list \<times> int list"

definition valid_ptr :: "MetaKernelSeq \<Rightarrow> packet_ptr \<Rightarrow> bool" where
  "valid_ptr ms p =
     (case p of VariablePtr i \<Rightarrow> i < length (Variables ms)
      | PacketPtr i \<Rightarrow> i < length (Packets (pMetaKernel ms)))"

definition make_argument :: "MetaKernelSeq \<Rightarrow> raw_argument \<Rightarrow> Argument" where
  "make_argument ms =
     (\<lambda>(variable, indices, hint).
        (new_Argument variable (packet_at ms variable) indices)\<lparr>Argument_BufferHint := hint\<rparr>)"

definition make_call :: "MetaKernelSeq \<Rightarrow> raw_call \<Rightarrow> KernelCall" where
  "make_call ms =
     (\<lambda>(callee, args, params, derivedparams).
        new_KernelCall (packet_at ms) callee (map (make_argument ms) args) params derivedparams)"

definition call_input :: "MetaKernelSeq \<Rightarrow> raw_call \<Rightarrow> bool" where
  "call_input ms =
     (\<lambda>(callee, args, params, derivedparams).
        list_all (\<lambda>(variable, indices, hint). valid_ptr ms variable) args \<and>
        list_all (\<lambda>param. param > 0) derivedparams \<and>
        list_all (\<lambda>packet. list_all (\<lambda>dim. dim \<ge> 0 \<or> nat (- dim - 1) < length derivedparams)
                             (ArrayDims packet))
          (Packets callee))"

definition front_end_input :: "MetaKernelSeq \<Rightarrow> raw_call list \<Rightarrow> bool" where
  "front_end_input ms calls \<longleftrightarrow>
     Operations ms = map (make_call ms) calls \<and>
     list_all (call_input ms) calls \<and>
     Inputs (pMetaKernel ms) = Inputs (InitInterface (pMetaKernel ms)) \<and>
     Outputs (pMetaKernel ms) = Outputs (InitInterface (pMetaKernel ms)) \<and>
     list_all (\<lambda>packet. Access packet \<in> {Access_in, Access_out, Access_inout} \<and>
                         list_all (\<lambda>dim. dim > 0) (ArrayDims packet))
       (Packets (pMetaKernel ms))"

text \<open>
  The cells of a variable that have a value before the operations \<open>ops\<close> are through: all
  cells of an \<^verbatim>\<open>in\<close> or \<^verbatim>\<open>inout\<close> packet of the meta-kernel, and the cells of every
  argument that an operation passed for a packet that is not \<^verbatim>\<open>in\<close>.
\<close>

definition initially_defined :: "MetaKernelSeq \<Rightarrow> packet_ptr \<Rightarrow> int list set" where
  "initially_defined ms v =
     (case v of
        VariablePtr i \<Rightarrow> {}
      | PacketPtr i \<Rightarrow>
          (let packet = Packets (pMetaKernel ms) ! i
           in if Access packet = Access_in \<or> Access packet = Access_inout
              then Space_points (Space_of_dims (ArrayDims packet)) else {}))"

definition writes_of :: "KernelCall \<Rightarrow> packet_ptr \<Rightarrow> int list set" where
  "writes_of call v =
     (\<Union>(arg, demand) \<in> set (zip (Args call) (Packets (Callee call))).
        if Access demand \<noteq> Access_in \<and> Variable arg = v then Space_points (Indices arg) else {})"

definition defined_before :: "MetaKernelSeq \<Rightarrow> KernelCall list \<Rightarrow> packet_ptr \<Rightarrow> int list set" where
  "defined_before ms ops v = initially_defined ms v \<union> (\<Union>call \<in> set ops. writes_of call v)"

text \<open>The name of the task made for the operation number \<open>j\<close>.\<close>

definition task_name_of :: "KernelCall list \<Rightarrow> nat \<Rightarrow> string" where
  "task_name_of ops j =
     task_name (Callee (ops ! j))
       (length (filter (\<lambda>call. Callee call = Callee (ops ! j)) (take j ops)))"

text \<open>
  An argument as the loop over the operations meets it: inside its variable, with the
  dimensions that the callee does not see of size one, and with an interface whose base type
  has the size of the variable's.
\<close>

definition arg_ok :: "MetaKernelSeq \<Rightarrow> Argument \<Rightarrow> bool" where
  "arg_ok ms arg \<longleftrightarrow>
     valid_ptr ms (Variable arg) \<and>
     length (Indices arg) = length (ArrayDims (packet_at ms (Variable arg))) \<and>
     Space_Contains (Space_of_dims (ArrayDims (packet_at ms (Variable arg)))) (Indices arg) \<and>
     sorted_wrt (<) (RelevantDims arg) \<and>
     (\<forall>dim \<in> set (RelevantDims arg). dim < length (Indices arg)) \<and>
     (\<forall>i < length (Indices arg). i \<notin> set (RelevantDims arg) \<longrightarrow> Range_size (Indices arg ! i) = 1) \<and>
     (\<exists>iface. Argument_Iface arg = Some iface \<and>
        Size (Packet_BaseType (Iface_Packet iface)) =
        Size (Packet_BaseType (packet_at ms (Variable arg))))"

text \<open>
  The invariant of the live definitions of the variable \<open>v\<close>, where \<open>W\<close> are the cells of \<open>v\<close>
  that have a value: the division covers the variable, the cells assigned to the null pointer
  have no value, and the cells assigned to an argument have one and lie in its index space.
\<close>

definition division_ok ::
  "MetaKernelSeq \<Rightarrow> packet_ptr \<Rightarrow> int list set \<Rightarrow> Argument option SpaceDivision \<Rightarrow> bool" where
  "division_ok ms v W d \<longleftrightarrow>
     SpaceDivision_inv d \<and>
     FullSpace d = Space_of_dims (ArrayDims (packet_at ms v)) \<and>
     covered_points d = Space_points (FullSpace d) \<and>
     (\<forall>(k, s) \<in> set (Sections d).
        case k of
          None \<Rightarrow> Space_points s \<inter> W = {}
        | Some arg \<Rightarrow> Space_points s \<subseteq> W \<and> arg_ok ms arg \<and> Variable arg = v \<and>
                      Space_Contains (Indices arg) s)"

definition defs_inv :: "MetaKernelSeq \<Rightarrow> definitions \<Rightarrow> (packet_ptr \<Rightarrow> int list set) \<Rightarrow> bool" where
  "defs_inv ms D W \<longleftrightarrow> (\<forall>v. valid_ptr ms v \<longrightarrow> (\<exists>d. D v = Some d \<and> division_ok ms v (W v) d))"

text \<open>
  A meta-kernel with the output \<^verbatim>\<open>R[2][4]\<close> and the variable \<^verbatim>\<open>A[8]\<close>. In the first
  sequence \<^verbatim>\<open>produce\<close> fills \<^verbatim>\<open>A\<close>, and two calls of \<^verbatim>\<open>copy\<close> move its halves to the
  rows of \<^verbatim>\<open>R\<close>; in the second one the only call reads \<^verbatim>\<open>A[2..5]\<close>, which nothing wrote.
\<close>

definition int_type :: BaseType where
  "int_type = \<lparr>Name = ''int'', Size = 4\<rparr>"

definition produce :: Kernel where
  "produce = \<lparr>Kernel_Name = ''produce'',
     Packets = [\<lparr>Packet_Name = ''a'', Access = Access_out, Packet_BaseType = int_type,
                 ArrayDims = [8]\<rparr>]\<rparr>"

definition copy4 :: Kernel where
  "copy4 = \<lparr>Kernel_Name = ''copy'',
     Packets = [\<lparr>Packet_Name = ''x'', Access = Access_in, Packet_BaseType = int_type,
                 ArrayDims = [4]\<rparr>,
                \<lparr>Packet_Name = ''y'', Access = Access_out, Packet_BaseType = int_type,
                 ArrayDims = [4]\<rparr>]\<rparr>"

definition no_task :: Task where
  "no_task = \<lparr>Task_Kernel = \<lparr>Kernel_Name = [], Packets = []\<rparr>, Task_Params = [],
     Task_DerivedParams = [], Task_Name = [], Ifaces = []\<rparr>"

definition main_kernel :: MetaKernel where
  "main_kernel = InitInterface
     \<lparr>Kernel_Name = ''main'',
      Packets = [\<lparr>Packet_Name = ''R'', Access = Access_out, Packet_BaseType = int_type,
                  ArrayDims = [2, 4]\<rparr>],
      Tasks = [], Inputs = no_task, Outputs = no_task, Dependencies = []\<rparr>"

definition seq0 :: MetaKernelSeq where
  "seq0 = \<lparr>Variables = [\<lparr>Packet_Name = ''A'', Access = Access_inout, Packet_BaseType = int_type,
                           ArrayDims = [8]\<rparr>],
            Operations = [], pMetaKernel = main_kernel\<rparr>"

definition calls_ok :: "raw_call list" where
  "calls_ok =
     [(produce, [(VariablePtr 0, [], - 1)], [], []),
      (copy4, [(VariablePtr 0, [BeginEnd 0 4], - 1), (PacketPtr 0, [BeginEnd 0 1], - 1)], [], []),
      (copy4, [(VariablePtr 0, [BeginEnd 4 8], - 1), (PacketPtr 0, [BeginEnd 1 2], - 1)], [], [])]"

definition seq_ok :: MetaKernelSeq where
  "seq_ok = seq0\<lparr>Operations := map (make_call seq0) calls_ok\<rparr>"

definition calls_bad :: "raw_call list" where
  "calls_bad =
     [(copy4, [(VariablePtr 0, [BeginEnd 2 6], - 1), (PacketPtr 0, [BeginEnd 0 1], - 1)], [], [])]"

definition seq_bad :: MetaKernelSeq where
  "seq_bad = seq0\<lparr>Operations := map (make_call seq0) calls_bad\<rparr>"

section \<open>Interning of base types\<close>

lemma TypeMap_emplace_inv:
  "TypeMap_inv tm \<Longrightarrow> TypeMap_inv (snd (TypeMap_emplace n s tm))"
  unfolding TypeMap_inv_def TypeMap_emplace_def
  by (auto simp: Let_def less_Suc_eq split: option.splits)

lemma TypeMap_emplace_dom:
  "dom (Table (snd (TypeMap_emplace n s tm))) = insert n (dom (Table tm))"
  unfolding TypeMap_emplace_def
  by (auto simp: Let_def split: option.splits)

lemma TypeMap_fold_inv:
  "TypeMap_inv tm \<Longrightarrow> TypeMap_inv (fold (\<lambda>(n, s) tm. snd (TypeMap_emplace n s tm)) ts tm)"
  by (induction ts arbitrary: tm) (auto simp: TypeMap_emplace_inv)

lemma TypeMap_fold_dom:
  "dom (Table (fold (\<lambda>(n, s) tm. snd (TypeMap_emplace n s tm)) ts tm)) = dom (Table tm) \<union> fst ` set ts"
proof (induction ts arbitrary: tm)
  case Nil
  then show ?case by simp
next
  case (Cons t ts)
  obtain n s where t: "t = (n, s)" by (cases t)
  show ?case using Cons.IH [of "snd (TypeMap_emplace n s tm)"] t
    by (simp add: TypeMap_emplace_dom)
qed

lemma TypeMap_init_inv: "TypeMap_inv TypeMap_init"
  unfolding TypeMap_init_def
  by (rule TypeMap_fold_inv) (simp add: TypeMap_inv_def)

lemma TypeMap_init_dom: "dom (Table TypeMap_init) = fst ` set types"
  unfolding TypeMap_init_def by (simp add: TypeMap_fold_dom)

lemma FromString_inv:
  "TypeMap_inv tm \<Longrightarrow> FromString n s tm ui = Inr r \<Longrightarrow> TypeMap_inv (Types r)"
  using TypeMap_emplace_inv [of tm n 1]
  unfolding FromString_def
  by (auto simp: Let_def split: option.splits sum.splits prod.splits)

lemma FromString_dom:
  "FromString n s tm ui = Inr r \<Longrightarrow> dom (Table (Types r)) = insert n (dom (Table tm))"
proof -
  assume a: "FromString n s tm ui = Inr r"
  show ?thesis
  proof (cases "Table tm n")
    case None
    then have "Types r = snd (TypeMap_emplace n 1 tm)"
      using a unfolding FromString_def
      by (auto simp: Let_def split: option.splits sum.splits prod.splits)
    then show ?thesis by (simp add: TypeMap_emplace_dom)
  next
    case (Some p)
    then have "Types r = tm" using a unfolding FromString_def by auto
    then show ?thesis using Some by auto
  qed
qed

lemma FromString_keeps:
  "TypeMap_inv tm \<Longrightarrow> FromString n s tm ui = Inr r \<Longrightarrow> Table tm m = Some p \<Longrightarrow>
   Table (Types r) m = Some p \<and> Heap (Types r) p = Heap tm p"
  unfolding FromString_def TypeMap_emplace_def TypeMap_inv_def
  by (fastforce simp: Let_def split: option.splits sum.splits prod.splits)

lemma FromString_calls_inv:
  "TypeMap_inv tm \<Longrightarrow> FromString_calls cs tm ui = Inr (tm', ui') \<Longrightarrow> TypeMap_inv tm'"
proof (induction cs arbitrary: tm ui)
  case Nil
  then show ?case by simp
next
  case (Cons c cs)
  obtain n s where c: "c = (n, s)" by (cases c)
  from Cons.prems(2) c obtain r where
    r: "FromString n s tm ui = Inr r" and rest: "FromString_calls cs (Types r) (UI r) = Inr (tm', ui')"
    by (auto split: sum.splits)
  show ?case using Cons.IH [OF FromString_inv [OF Cons.prems(1) r] rest] .
qed

lemma FromString_calls_dom:
  "FromString_calls cs tm ui = Inr (tm', ui') \<Longrightarrow> dom (Table tm') = dom (Table tm) \<union> fst ` set cs"
proof (induction cs arbitrary: tm ui)
  case Nil
  then show ?case by simp
next
  case (Cons c cs)
  obtain n s where c: "c = (n, s)" by (cases c)
  from Cons.prems c obtain r where
    r: "FromString n s tm ui = Inr r" and rest: "FromString_calls cs (Types r) (UI r) = Inr (tm', ui')"
    by (auto split: sum.splits)
  show ?case using Cons.IH [OF rest] FromString_dom [OF r] c by simp
qed

lemma FromString_calls_keeps:
  "TypeMap_inv tm \<Longrightarrow> FromString_calls cs tm ui = Inr (tm', ui') \<Longrightarrow> Table tm m = Some p \<Longrightarrow>
   Table tm' m = Some p \<and> Heap tm' p = Heap tm p"
proof (induction cs arbitrary: tm ui)
  case Nil
  then show ?case by simp
next
  case (Cons c cs)
  obtain n s where c: "c = (n, s)" by (cases c)
  from Cons.prems(2) c obtain r where
    r: "FromString n s tm ui = Inr r" and rest: "FromString_calls cs (Types r) (UI r) = Inr (tm', ui')"
    by (auto split: sum.splits)
  have "TypeMap_inv (Types r)" using FromString_inv [OF Cons.prems(1) r] .
  moreover have "Table (Types r) m = Some p \<and> Heap (Types r) p = Heap tm p"
    using FromString_keeps [OF Cons.prems(1) r Cons.prems(3)] .
  ultimately show ?case using Cons.IH [OF _ rest] by simp
qed

lemma FromString_known:
  "Table tm n = Some p \<Longrightarrow>
   FromString n s tm ui = Inr \<lparr>Returned = p, SuccessFlag = s, Types = tm, UI = ui\<rparr>"
  by (simp add: FromString_def)

lemma FromString_registers:
  "FromString n s tm ui = Inr r \<Longrightarrow> Table (Types r) n = Some (Returned r)"
  unfolding FromString_def TypeMap_emplace_def
  by (auto simp: Let_def split: option.splits sum.splits prod.splits)

lemma FromString_unknown:
  "Table tm n = None \<Longrightarrow> FromString n s tm ui = Inr r \<Longrightarrow>
   Heap (Types r) (Returned r) = Some \<lparr>Name = n, Size = 1\<rparr> \<and>
   SuccessFlag r = map_option (\<lambda>_. False) s \<and>
   Printed (UI r) =
     Printed ui @ [(if s = None then SevWarning else SevError, UnknownDataType n)]"
  unfolding FromString_def TypeMap_emplace_def MsgUI_Error_def MsgUI_Warning_def
  by (auto simp: Let_def split: option.splits sum.splits prod.splits if_splits)

lemma FromString_exits:
  "(\<exists>e. FromString n s tm ui = Inl e) \<longleftrightarrow>
   Table tm n = None \<and> s \<noteq> None \<and> 1000 \<le> NumErrors ui"
  unfolding FromString_def TypeMap_emplace_def MsgUI_Error_def MsgUI_Warning_def
  by (auto simp: Let_def split: option.splits sum.splits prod.splits if_splits)

text \<open>
  Claim C10. \<^verbatim>\<open>BaseType::FromString\<close> never returns the null pointer and interns its
  results. Take the table after any calls that returned, a call for \<open>name\<close> that returns \<open>r\<close>,
  and any later calls. Then the pointer of \<open>r\<close> is not null and points to an object called
  \<open>name\<close>; a later call for \<open>name\<close> (with any success argument) returns the same pointer to
  the same, unchanged object, leaves the success flag alone and prints nothing. If \<open>name\<close> is a
  built-in type or was asked for before, the first call changes nothing either; otherwise
  it registers the name with size 1, sets the flag to false and prints an error when a flag was
  passed, and prints a warning when none was passed.
\<close>

theorem FromString_interns:
  assumes before: "FromString_calls before TypeMap_init ui0 = Inr (tm, ui)"
    and first: "FromString name success tm ui = Inr r"
    and between: "FromString_calls between (Types r) (UI r) = Inr (tm', ui')"
  shows "Returned r \<noteq> nullptr \<and>
         (\<exists>sz. Heap (Types r) (Returned r) = Some \<lparr>Name = name, Size = sz\<rparr>) \<and>
         FromString name success' tm' ui' =
           Inr \<lparr>Returned = Returned r, SuccessFlag = success', Types = tm', UI = ui'\<rparr> \<and>
         Heap tm' (Returned r) = Heap (Types r) (Returned r) \<and>
         (if name \<in> fst ` set types \<union> fst ` set before
          then Types r = tm \<and> UI r = ui \<and> SuccessFlag r = success
          else Heap (Types r) (Returned r) = Some \<lparr>Name = name, Size = 1\<rparr> \<and>
               SuccessFlag r = map_option (\<lambda>_. False) success \<and>
               Printed (UI r) =
                 Printed ui @
                 [(if success = None then SevWarning else SevError, UnknownDataType name)])"
proof -
  have inv: "TypeMap_inv tm" using FromString_calls_inv [OF TypeMap_init_inv before] .
  have inv1: "TypeMap_inv (Types r)" using FromString_inv [OF inv first] .
  have reg: "Table (Types r) name = Some (Returned r)" using FromString_registers [OF first] .
  have later: "Table tm' name = Some (Returned r) \<and> Heap tm' (Returned r) = Heap (Types r) (Returned r)"
    using FromString_calls_keeps [OF inv1 between reg] .
  have dom: "dom (Table tm) = fst ` set types \<union> fst ` set before"
    using FromString_calls_dom [OF before] TypeMap_init_dom by simp
  have nonnull: "Returned r \<noteq> nullptr"
    using inv1 reg unfolding TypeMap_inv_def nullptr_def by fastforce
  have obj: "\<exists>sz. Heap (Types r) (Returned r) = Some \<lparr>Name = name, Size = sz\<rparr>"
    using inv1 reg unfolding TypeMap_inv_def by blast
  have again: "FromString name success' tm' ui' =
           Inr \<lparr>Returned = Returned r, SuccessFlag = success', Types = tm', UI = ui'\<rparr>"
    using later FromString_known by blast
  have cases: "if name \<in> fst ` set types \<union> fst ` set before
          then Types r = tm \<and> UI r = ui \<and> SuccessFlag r = success
          else Heap (Types r) (Returned r) = Some \<lparr>Name = name, Size = 1\<rparr> \<and>
               SuccessFlag r = map_option (\<lambda>_. False) success \<and>
               Printed (UI r) =
                 Printed ui @
                 [(if success = None then SevWarning else SevError, UnknownDataType name)]"
  proof (cases "name \<in> fst ` set types \<union> fst ` set before")
    case True
    then obtain p where "Table tm name = Some p" using dom by (metis domD)
    then show ?thesis using True first FromString_known [of tm name p success ui] by auto
  next
    case False
    then have "Table tm name = None" using dom by (metis domIff)
    then show ?thesis using False FromString_unknown [OF _ first] by simp
  qed
  show ?thesis using nonnull obj again later cases by blast
qed

theorem FromString_interns_witness:
  "\<exists>r. FromString ''foo'' (Some True) TypeMap_init ui_start = Inr r \<and>
       Returned r \<noteq> nullptr \<and>
       Heap (Types r) (Returned r) = Some \<lparr>Name = ''foo'', Size = 1\<rparr> \<and>
       SuccessFlag r = Some False \<and>
       Printed (UI r) = [(SevError, UnknownDataType ''foo'')] \<and>
       FromString ''foo'' None (Types r) (UI r) =
         Inr \<lparr>Returned = Returned r, SuccessFlag = None, Types = Types r, UI = UI r\<rparr>"
proof -
  obtain r where r: "FromString ''foo'' (Some True) TypeMap_init ui_start = Inr r"
    by (simp add: FromString_def TypeMap_init_def types_def TypeMap_emplace_def ui_start_def
        MsgUI_Error_def Let_def)
  have b: "FromString_calls [] TypeMap_init ui_start = Inr (TypeMap_init, ui_start)" by simp
  have m: "FromString_calls [] (Types r) (UI r) = Inr (Types r, UI r)" by simp
  have notin: "''foo'' \<notin> fst ` set types \<union> fst ` set ([] :: (string \<times> bool option) list)"
    by (simp add: types_def)
  show ?thesis using FromString_interns [OF b r m, of None] r notin
    by (auto simp: ui_start_def)
qed

section \<open>Pass dependencies\<close>

lemma CheckRequires_None:
  "CheckRequires name reqs performed = None \<longleftrightarrow> set reqs \<subseteq> performed"
  by (induction reqs) auto

lemma CheckRequires_Some:
  "CheckRequires name reqs performed = Some err \<Longrightarrow>
   err \<in> ResultsNotAvailable name ` (set reqs - performed)"
  by (induction reqs) (auto split: if_splits)

lemma EraseDestroyed_eq: "EraseDestroyed dests performed = performed - set dests"
  by (induction dests arbitrary: performed) auto

text \<open>
  Claim C8. When some required pass is not among the passes performed, \<^verbatim>\<open>Pass::Run\<close>
  raises an error that names the pass and a missing requirement, the program is left as it
  was, and the outcome is the same whatever the pass function is: the function is not run.
  When all requirements are there, the pass function runs on the program with every name of
  the destroys list removed from the set, and afterwards the pass's own name is inserted if
  the function returned true, and nothing is inserted if it returned false.
\<close>

theorem Run_checks_dependencies:
  "(if set (Pass_Requires pass) \<subseteq> PassesPerformed prog
    then Run pass prog =
         (let prog1 = prog\<lparr>PassesPerformed := PassesPerformed prog - set (Pass_Destroys pass)\<rparr>;
              (res, prog2) = Pass_Function pass prog1
          in (Pushed res,
              if res then prog2\<lparr>PassesPerformed := insert (Pass_Name pass) (PassesPerformed prog2)\<rparr>
              else prog2))
    else snd (Run pass prog) = prog \<and>
         fst (Run pass prog) \<in>
           (\<lambda>req. Raised (ResultsNotAvailable (Pass_Name pass) req)) `
             (set (Pass_Requires pass) - PassesPerformed prog) \<and>
         Run (pass\<lparr>Pass_Function := f\<rparr>) prog = Run pass prog)"
proof (cases "set (Pass_Requires pass) \<subseteq> PassesPerformed prog")
  case True
  then have "CheckRequires (Pass_Name pass) (Pass_Requires pass) (PassesPerformed prog) = None"
    by (simp add: CheckRequires_None)
  then show ?thesis using True
    by (simp add: Run_def CheckDependencies_def EraseDestroyed_eq Finish_def FinishImpl_def
        Let_def split: prod.splits)
next
  case False
  then obtain err where
    err: "CheckRequires (Pass_Name pass) (Pass_Requires pass) (PassesPerformed prog) = Some err"
    using CheckRequires_None [of "Pass_Name pass" "Pass_Requires pass" "PassesPerformed prog"] by auto
  from CheckRequires_Some [OF err] obtain req where
    req: "req \<in> set (Pass_Requires pass) - PassesPerformed prog"
      "err = ResultsNotAvailable (Pass_Name pass) req" by auto
  show ?thesis using False err req
    by (simp add: Run_def CheckDependencies_def)
qed

definition pass_example :: "unit Pass" where
  "pass_example =
     \<lparr>Pass_Name = ''CalcSuccessorMatrix'', Pass_Function = (\<lambda>prog. (True, prog)),
      Pass_Requires = [''TaskTopoSort''], Pass_Destroys = [''LoadMapping'']\<rparr>"

theorem Run_checks_dependencies_witness:
  "Run pass_example \<lparr>PassesPerformed = {''TaskTopoSort'', ''LoadMapping''}, Contents = ()\<rparr> =
     (Pushed True,
      \<lparr>PassesPerformed = {''CalcSuccessorMatrix'', ''TaskTopoSort''}, Contents = ()\<rparr>) \<and>
   Run pass_example \<lparr>PassesPerformed = {''LoadMapping''}, Contents = ()\<rparr> =
     (Raised (ResultsNotAvailable ''CalcSuccessorMatrix'' ''TaskTopoSort''),
      \<lparr>PassesPerformed = {''LoadMapping''}, Contents = ()\<rparr>)"
proof -
  have a: "Run pass_example \<lparr>PassesPerformed = {''TaskTopoSort'', ''LoadMapping''}, Contents = ()\<rparr> =
     (Pushed True,
      \<lparr>PassesPerformed = {''CalcSuccessorMatrix'', ''TaskTopoSort''}, Contents = ()\<rparr>)"
    using Run_checks_dependencies
      [of pass_example "\<lparr>PassesPerformed = {''TaskTopoSort'', ''LoadMapping''}, Contents = ()\<rparr>"]
    by (auto simp: pass_example_def)
  have b: "Run pass_example \<lparr>PassesPerformed = {''LoadMapping''}, Contents = ()\<rparr> =
     (Raised (ResultsNotAvailable ''CalcSuccessorMatrix'' ''TaskTopoSort''),
      \<lparr>PassesPerformed = {''LoadMapping''}, Contents = ()\<rparr>)"
    using Run_checks_dependencies
      [of pass_example "\<lparr>PassesPerformed = {''LoadMapping''}, Contents = ()\<rparr>"]
    by (auto simp: pass_example_def prod_eq_iff)
  show ?thesis using a b by simp
qed

section \<open>Removing a space from a space\<close>

lemma first_mismatch_le: "length s = length a \<Longrightarrow> first_mismatch a s \<le> length a"
  by (induction a s rule: first_mismatch.induct) auto

lemma first_mismatch_before:
  "length s = length a \<Longrightarrow> j < first_mismatch a s \<Longrightarrow> Range_Contains (s ! j) (a ! j)"
proof (induction a s arbitrary: j rule: first_mismatch.induct)
  case (1 a as b bs)
  then show ?case by (cases j) (auto split: if_splits)
qed auto

lemma first_mismatch_at:
  "length s = length a \<Longrightarrow> first_mismatch a s < length a \<Longrightarrow>
   \<not> Range_Contains (s ! first_mismatch a s) (a ! first_mismatch a s)"
  by (induction a s rule: first_mismatch.induct) auto

lemma drop_all2_nth:
  "length s = length a \<Longrightarrow>
   list_all2 P (drop k a) (drop k s) \<longleftrightarrow> (\<forall>j. k \<le> j \<and> j < length a \<longrightarrow> P (a ! j) (s ! j))"
proof -
  assume len: "length s = length a"
  have "list_all2 P (drop k a) (drop k s) \<longleftrightarrow>
        (\<forall>m < length a - k. P (a ! (k + m)) (s ! (k + m)))"
    using len by (auto simp: list_all2_conv_all_nth)
  also have "\<dots> \<longleftrightarrow> (\<forall>j. k \<le> j \<and> j < length a \<longrightarrow> P (a ! j) (s ! j))"
  proof
    assume h: "\<forall>m < length a - k. P (a ! (k + m)) (s ! (k + m))"
    show "\<forall>j. k \<le> j \<and> j < length a \<longrightarrow> P (a ! j) (s ! j)"
    proof (intro allI impI)
      fix j assume "k \<le> j \<and> j < length a"
      then have "j - k < length a - k" "k + (j - k) = j" by auto
      then show "P (a ! j) (s ! j)" using h by metis
    qed
  next
    assume "\<forall>j. k \<le> j \<and> j < length a \<longrightarrow> P (a ! j) (s ! j)"
    then show "\<forall>m < length a - k. P (a ! (k + m)) (s ! (k + m))" by auto
  qed
  finally show ?thesis .
qed

lemma singleton_list: "distinct xs \<Longrightarrow> set xs = {i} \<Longrightarrow> xs = [i]"
proof (cases xs)
  case Nil
  assume "set xs = {i}"
  then show ?thesis using Nil by simp
next
  case (Cons x ys)
  assume d: "distinct xs" and st: "set xs = {i}"
  have x: "x = i" using st Cons by auto
  have "set ys \<subseteq> {i}" using st Cons by auto
  moreover have "i \<notin> set ys" using d Cons x by simp
  ultimately have "ys = []" by (cases ys) auto
  then show ?thesis using Cons x by simp
qed

lemma Range_Remove_points:
  "\<not> strictly_inside r t \<Longrightarrow> \<not> Range_Contains r t \<Longrightarrow>
   Range_points (Range_Remove t r) = Range_points t - Range_points r"
  unfolding strictly_inside_def Range_Contains_def Range_points_def Range_Remove_def
  by auto

lemma Range_Remove_inside: "strictly_inside r t \<Longrightarrow> Range_Remove t r = t"
  unfolding strictly_inside_def Range_Remove_def by auto

lemma Range_Contains_points: "Range_Contains r t \<Longrightarrow> Range_points t \<subseteq> Range_points r"
  unfolding Range_Contains_def Range_points_def by auto

lemma filter_upt_single:
  "filter P [0..<n] = [i] \<longleftrightarrow> i < n \<and> P i \<and> (\<forall>j<n. P j \<longrightarrow> j = i)"
proof
  assume h: "filter P [0..<n] = [i]"
  then have "set (filter P [0..<n]) = {i}" by simp
  then have "{j. j < n \<and> P j} = {i}" by auto
  then show "i < n \<and> P i \<and> (\<forall>j<n. P j \<longrightarrow> j = i)" by blast
next
  assume h: "i < n \<and> P i \<and> (\<forall>j<n. P j \<longrightarrow> j = i)"
  then have "set (filter P [0..<n]) = {i}" by auto
  moreover have "distinct (filter P [0..<n])" by simp
  ultimately show "filter P [0..<n] = [i]" by (rule singleton_list [rotated])
qed

lemma mismatches_single:
  "mismatches a s = [i] \<longleftrightarrow>
   i < length a \<and> \<not> Range_Contains (s ! i) (a ! i) \<and>
   (\<forall>j<length a. \<not> Range_Contains (s ! j) (a ! j) \<longrightarrow> j = i)"
  unfolding mismatches_def by (rule filter_upt_single)

lemma mismatches_Nil:
  "mismatches a s = [] \<longleftrightarrow> (\<forall>j<length a. Range_Contains (s ! j) (a ! j))"
  unfolding mismatches_def by (auto simp: filter_empty_conv)

lemma Space_Remove_unfold:
  assumes len: "length s = length a"
  shows "Space_Remove a s =
         (if first_mismatch a s = length a then a
          else if \<not> (\<forall>j. Suc (first_mismatch a s) \<le> j \<and> j < length a \<longrightarrow>
                          Range_Contains (s ! j) (a ! j)) then a
          else a[first_mismatch a s :=
                   Range_Remove (a ! first_mismatch a s) (s ! first_mismatch a s)])"
  unfolding Space_Remove_def Let_def drop_all2_nth [OF len] ..

lemma Space_Remove_cases:
  assumes len: "length s = length a"
  shows "Space_Remove a s =
         (case mismatches a s of [i] \<Rightarrow> a[i := Range_Remove (a ! i) (s ! i)] | _ \<Rightarrow> a)"
proof -
  let ?i = "first_mismatch a s"
  let ?C = "\<lambda>j. Range_Contains (s ! j) (a ! j)"
  have le: "?i \<le> length a" using first_mismatch_le [OF len] .
  show ?thesis
  proof (cases "?i = length a")
    case True
    then have "mismatches a s = []"
      using first_mismatch_before [OF len] by (simp add: mismatches_Nil)
    moreover have "Space_Remove a s = a"
      using True Space_Remove_unfold [OF len] by presburger
    ultimately show ?thesis by simp
  next
    case False
    then have lt: "?i < length a" using le by simp
    have ni: "\<not> ?C ?i" using first_mismatch_at [OF len lt] .
    show ?thesis
    proof (cases "\<forall>j. Suc ?i \<le> j \<and> j < length a \<longrightarrow> ?C j")
      case True
      have "\<forall>j<length a. \<not> ?C j \<longrightarrow> j = ?i"
      proof (intro allI impI)
        fix j assume j: "j < length a" "\<not> ?C j"
        have "\<not> j < ?i" using first_mismatch_before [OF len] j(2) by blast
        moreover have "\<not> Suc ?i \<le> j" using True j by blast
        ultimately show "j = ?i" by simp
      qed
      then have m: "mismatches a s = [?i]"
        using lt ni mismatches_single [of a s ?i] by blast
      have "Space_Remove a s = a[?i := Range_Remove (a ! ?i) (s ! ?i)]"
        using True False Space_Remove_unfold [OF len] by presburger
      then show ?thesis unfolding m by simp
    next
      case nall: False
      then obtain j where j: "Suc ?i \<le> j" "j < length a" "\<not> ?C j" by blast
      have "mismatches a s \<noteq> [k]" for k
      proof
        assume "mismatches a s = [k]"
        then have all: "\<forall>j<length a. \<not> ?C j \<longrightarrow> j = k"
          using mismatches_single [of a s k] by blast
        have "j = k" using all j by blast
        moreover have "?i = k" using all lt ni by blast
        ultimately show False using j(1) by simp
      qed
      then have c: "(case mismatches a s of [i] \<Rightarrow> a[i := Range_Remove (a ! i) (s ! i)] | _ \<Rightarrow> a) = a"
        by (cases "mismatches a s"; cases "tl (mismatches a s)") auto
      have "Space_Remove a s = a"
        using nall False Space_Remove_unfold [OF len] by presburger
      then show ?thesis unfolding c .
    qed
  qed
qed

lemma Space_points_nth:
  "Space_points s = {p. length p = length s \<and> (\<forall>j<length s. p ! j \<in> Range_points (s ! j))}"
  unfolding Space_points_def by (auto simp: list_all2_conv_all_nth)

lemma Space_points_update:
  assumes len: "length s = length a" and i: "i < length a"
    and others: "\<forall>j<length a. j \<noteq> i \<longrightarrow> Range_Contains (s ! j) (a ! j)"
    and r: "Range_points r = Range_points (a ! i) - Range_points (s ! i)"
  shows "Space_points (a[i := r]) = Space_points a - Space_points s"
proof (rule set_eqI)
  fix p
  have sub: "\<And>j. j < length a \<Longrightarrow> j \<noteq> i \<Longrightarrow> Range_points (a ! j) \<subseteq> Range_points (s ! j)"
    using others Range_Contains_points by blast
  show "p \<in> Space_points (a[i := r]) \<longleftrightarrow> p \<in> Space_points a - Space_points s"
  proof
    assume h: "p \<in> Space_points (a[i := r])"
    then have lp: "length p = length a"
      and all: "\<forall>j<length a. p ! j \<in> Range_points (a[i := r] ! j)"
      by (auto simp: Space_points_nth)
    have pi: "p ! i \<in> Range_points (a ! i) - Range_points (s ! i)"
      using all i r by (metis nth_list_update_eq)
    have "\<forall>j<length a. p ! j \<in> Range_points (a ! j)"
    proof (intro allI impI)
      fix j assume "j < length a"
      then show "p ! j \<in> Range_points (a ! j)"
        using all pi by (cases "j = i") auto
    qed
    moreover have "p \<notin> Space_points s" using pi i len by (auto simp: Space_points_nth)
    ultimately show "p \<in> Space_points a - Space_points s" using lp by (simp add: Space_points_nth)
  next
    assume h: "p \<in> Space_points a - Space_points s"
    then have lp: "length p = length a"
      and all: "\<forall>j<length a. p ! j \<in> Range_points (a ! j)"
      and nots: "\<not> (\<forall>j<length a. p ! j \<in> Range_points (s ! j))"
      using len by (auto simp: Space_points_nth)
    from nots obtain j where j: "j < length a" "p ! j \<notin> Range_points (s ! j)" by blast
    have "j = i" using j all sub by blast
    then have "p ! i \<in> Range_points r" using j all r by auto
    then have "\<forall>j<length a. p ! j \<in> Range_points (a[i := r] ! j)"
      using all i by (auto simp: nth_list_update)
    then show "p \<in> Space_points (a[i := r])" using lp by (simp add: Space_points_nth)
  qed
qed

text \<open>
  Claim C7, amended. For spaces \<open>a\<close> and \<open>s\<close> of equal dimensionality: if \<open>s\<close> contains
  \<open>a\<close> in all dimensions except one, and the range of \<open>s\<close> in that dimension does not lie
  strictly inside the range of \<open>a\<close>, then \<^verbatim>\<open>a.Remove(s)\<close> changes that one range only, to
  the range whose points are those of \<open>a\<close>'s range without those of \<open>s\<close>'s range, and the
  points of the result are the points of \<open>a\<close> that are not in \<open>s\<close>. If the range of \<open>s\<close> lies
  strictly inside, and in every other case (\<open>s\<close> contains \<open>a\<close> in all dimensions, or fails to
  in two or more), \<open>a\<close> is left unchanged.
\<close>

theorem Space_Remove_one_dimension:
  assumes len: "length s = length a"
  shows "(case mismatches a s of
            [i] \<Rightarrow>
              if strictly_inside (s ! i) (a ! i) then Space_Remove a s = a
              else Space_Remove a s = a[i := Range_Remove (a ! i) (s ! i)] \<and>
                   Range_points (Space_Remove a s ! i) =
                     Range_points (a ! i) - Range_points (s ! i) \<and>
                   Space_points (Space_Remove a s) = Space_points a - Space_points s
          | _ \<Rightarrow> Space_Remove a s = a)"
proof (cases "\<exists>i. mismatches a s = [i]")
  case False
  then show ?thesis using Space_Remove_cases [OF len] by (auto split: list.splits)
next
  case True
  then obtain i where mi: "mismatches a s = [i]" by blast
  then have i: "i < length a" and ni: "\<not> Range_Contains (s ! i) (a ! i)"
    and others: "\<forall>j<length a. j \<noteq> i \<longrightarrow> Range_Contains (s ! j) (a ! j)"
    by (auto simp: mismatches_single)
  have eq: "Space_Remove a s = a[i := Range_Remove (a ! i) (s ! i)]"
    using Space_Remove_cases [OF len] mi by simp
  show ?thesis
  proof (cases "strictly_inside (s ! i) (a ! i)")
    case True
    then show ?thesis using eq mi by (simp add: Range_Remove_inside)
  next
    case False
    have pts: "Range_points (Range_Remove (a ! i) (s ! i)) =
               Range_points (a ! i) - Range_points (s ! i)"
      using Range_Remove_points [OF False ni] .
    have "Space_points (a[i := Range_Remove (a ! i) (s ! i)]) = Space_points a - Space_points s"
      using Space_points_update [OF len i others pts] .
    then show ?thesis using eq mi False pts i by simp
  qed
qed

text \<open>
  The claim as stated fails where the range to remove lies strictly inside: \<open>s = [3, 5)\<close>
  contains \<open>a = [0, 10)\<close> in all dimensions except the only one, and \<open>4\<close> is still a point
  of the result.
\<close>

theorem Space_Remove_counterexample:
  "mismatches [BeginEnd 0 10] [BeginEnd 3 5] = [0] \<and>
   Range_points (Space_Remove [BeginEnd 0 10] [BeginEnd 3 5] ! 0) \<noteq>
     Range_points (BeginEnd 0 10) - Range_points (BeginEnd 3 5)"
proof -
  have "(4::int) \<in> Range_points (Space_Remove [BeginEnd 0 10] [BeginEnd 3 5] ! 0)"
    by (simp add: Space_Remove_def Range_Contains_def Range_Remove_def BeginEnd_def
        Range_points_def)
  moreover have "(4::int) \<notin> Range_points (BeginEnd 0 10) - Range_points (BeginEnd 3 5)"
    by (simp add: BeginEnd_def Range_points_def)
  moreover have "mismatches [BeginEnd 0 10] [BeginEnd 3 5] = [0]"
    by (simp add: mismatches_def Range_Contains_def BeginEnd_def)
  ultimately show ?thesis by blast
qed

theorem Space_Remove_one_dimension_witness:
  "Space_Remove [BeginEnd 0 10, BeginEnd 0 4] [BeginEnd 0 6, BeginEnd 0 4] =
     [BeginEnd 6 10, BeginEnd 0 4] \<and>
   Space_points (Space_Remove [BeginEnd 0 10, BeginEnd 0 4] [BeginEnd 0 6, BeginEnd 0 4]) =
     Space_points [BeginEnd 0 10, BeginEnd 0 4] - Space_points [BeginEnd 0 6, BeginEnd 0 4]"
proof -
  have m: "mismatches [BeginEnd 0 10, BeginEnd 0 4] [BeginEnd 0 6, BeginEnd 0 4] = [0]"
    by (simp add: mismatches_def Range_Contains_def BeginEnd_def upt_rec)
  have l: "length [BeginEnd 0 6, BeginEnd 0 4] = length [BeginEnd 0 10, BeginEnd 0 4]" by simp
  have n: "\<not> strictly_inside ([BeginEnd 0 6, BeginEnd 0 4] ! 0) ([BeginEnd 0 10, BeginEnd 0 4] ! 0)"
    by (simp add: strictly_inside_def BeginEnd_def)
  have r: "[BeginEnd 0 10, BeginEnd 0 4]
             [0 := Range_Remove ([BeginEnd 0 10, BeginEnd 0 4] ! 0) ([BeginEnd 0 6, BeginEnd 0 4] ! 0)] =
           [BeginEnd 6 10, BeginEnd 0 4]"
    by (simp add: BeginEnd_def Range_Remove_def)
  have c: "Space_Remove [BeginEnd 0 10, BeginEnd 0 4] [BeginEnd 0 6, BeginEnd 0 4] =
             [BeginEnd 0 10, BeginEnd 0 4]
               [0 := Range_Remove ([BeginEnd 0 10, BeginEnd 0 4] ! 0) ([BeginEnd 0 6, BeginEnd 0 4] ! 0)] \<and>
           Space_points (Space_Remove [BeginEnd 0 10, BeginEnd 0 4] [BeginEnd 0 6, BeginEnd 0 4]) =
             Space_points [BeginEnd 0 10, BeginEnd 0 4] - Space_points [BeginEnd 0 6, BeginEnd 0 4]"
    using Space_Remove_one_dimension [OF l, unfolded m list.case if_not_P [OF n]] by blast
  then have "Space_Remove [BeginEnd 0 10, BeginEnd 0 4] [BeginEnd 0 6, BeginEnd 0 4] =
             [BeginEnd 6 10, BeginEnd 0 4]" using r by (simp only:)
  then show ?thesis using c by blast
qed

section \<open>Reachability\<close>

lemma AdjacencyMatrix_fold:
  "fold (\<lambda>(source, target) ret. ret(source := insert target (ret source))) es m u =
   m u \<union> {v. (u, v) \<in> set es}"
  by (induction es arbitrary: m) (auto split: if_splits)

lemma AdjacencyMatrix_edges: "AdjacencyMatrix g u = {v. (u, v) \<in> set (Edges g)}"
  by (simp add: AdjacencyMatrix_def AdjacencyMatrix_fold)

lemma reach_step_sound:
  assumes "\<forall>u. ret u \<subseteq> {v. (u, v) \<in> E\<^sup>+}"
  shows "\<forall>u. reach_step n1 n2 ret u \<subseteq> {v. (u, v) \<in> E\<^sup>+}"
proof (cases "n2 \<in> ret n1")
  case True
  then have "(n1, n2) \<in> E\<^sup>+" using assms by auto
  then have "ret n2 \<subseteq> {v. (n1, v) \<in> E\<^sup>+}" using assms by (auto intro: trancl_trans)
  then show ?thesis using assms True by (auto simp: reach_step_def)
next
  case False
  then show ?thesis using assms by (simp add: reach_step_def)
qed

lemma reach_inner_sound:
  "\<forall>u. ret u \<subseteq> {v. (u, v) \<in> E\<^sup>+} \<Longrightarrow>
   \<forall>u. fold (\<lambda>n2 ret. reach_step n1 n2 ret) ns ret u \<subseteq> {v. (u, v) \<in> E\<^sup>+}"
proof (induction ns arbitrary: ret)
  case Nil
  then show ?case by simp
next
  case (Cons n ns)
  show ?case using Cons.IH [OF reach_step_sound [OF Cons.prems]] by simp
qed

lemma reach_outer_sound:
  "\<forall>u. ret u \<subseteq> {v. (u, v) \<in> E\<^sup>+} \<Longrightarrow>
   \<forall>u. fold (\<lambda>n1 ret. fold (\<lambda>n2 ret. reach_step n1 n2 ret) ms ret) ns ret u
         \<subseteq> {v. (u, v) \<in> E\<^sup>+}"
proof (induction ns arbitrary: ret)
  case Nil
  then show ?case by simp
next
  case (Cons n ns)
  show ?case using Cons.IH [OF reach_inner_sound [OF Cons.prems]] by simp
qed

text \<open>What the loops do guarantee: every node listed for \<open>u\<close> is reachable from \<open>u\<close>.\<close>

lemma ReachabilityMatrix_sound:
  "ReachabilityMatrix g u \<subseteq> {v. (u, v) \<in> (set (Edges g))\<^sup>+}"
proof -
  have "\<forall>u. AdjacencyMatrix g u \<subseteq> {v. (u, v) \<in> (set (Edges g))\<^sup>+}"
    by (auto simp: AdjacencyMatrix_edges)
  from reach_outer_sound [OF this] show ?thesis by (simp add: ReachabilityMatrix_def)
qed

text \<open>
  Claim C3 at the graph \<open>path_graph\<close>: node 4 is reachable from node 1 along three edges,
  and \<^verbatim>\<open>ReachabilityMatrix\<close> returns \<open>{2, 3}\<close> for node 1. The row of node 1 is finished
  before the row of node 2 has taken up anything, and is not visited again.
\<close>

theorem ReachabilityMatrix_misses_node:
  "ReachabilityMatrix path_graph 1 = {2, 3} \<and>
   (1, 4) \<in> (set (Edges path_graph))\<^sup>+ \<and>
   4 \<notin> ReachabilityMatrix path_graph 1"
proof -
  have r: "ReachabilityMatrix path_graph 1 = {2, 3}"
    by (simp add: ReachabilityMatrix_def AdjacencyMatrix_def path_graph_def reach_step_def)
  have "(1, 3) \<in> set (Edges path_graph)" "(3, 2) \<in> set (Edges path_graph)"
    "(2, 4) \<in> set (Edges path_graph)"
    by (simp_all add: path_graph_def)
  then have "(1, 4) \<in> (set (Edges path_graph))\<^sup>+"
    by (meson trancl.intros)
  then show ?thesis using r by simp
qed

section \<open>Occupation charts\<close>

lemmas chart_simps =
  Occupy_def Unoccupy_def lower_bound_def upper_bound_def prev_it_def second_def set_second_def
  emplace_def erase_def visited_def fix_from_def fix_to_def undo_def sample_def new_chart_def
  chart_3_from_5_def chart_2_from_0_def Let_def

text \<open>
  Claim C1 at two inputs. On a new chart of capacity 10, \<^verbatim>\<open>Occupy(0, 5, 1)\<close> adds 1 to the
  entry at 0 and then compares it with \<^verbatim>\<open>std::prev(itfrom)->second\<close>, where \<open>itfrom\<close> is
  \<^verbatim>\<open>begin()\<close>; and \<^verbatim>\<open>Occupy(3, 5, 1)\<close> fails the assertion that \<open>itfrom\<close> is not
  \<^verbatim>\<open>end()\<close>. On the chart with 3 units over \<open>[5, 10)\<close>, where the samples at 2 and 3 are 0
  and 1 more would stay below the capacity, \<^verbatim>\<open>Occupy(2, 4, 1)\<close> returns true and leaves
  the sample 4 at the times 2 and 3: it takes the value of the entry behind \<open>from\<close>.
\<close>

theorem Occupy_breaks_contract:
  "Occupy (new_chart 10) 0 5 1 = Inl PrevOfBegin \<and>
   Occupy (new_chart 10) 3 5 1 = Inl AssertionFailed \<and>
   map (sample chart_3_from_5) [2, 3] = [Inr 0, Inr 0] \<and>
   Occupy chart_3_from_5 2 4 1 =
     Inr (True, \<lparr>Capacity = 10, Entries = [(0, 0), (2, 4), (4, 0), (5, 3), (10, 0)]\<rparr>) \<and>
   map (sample \<lparr>Capacity = 10, Entries = [(0, 0), (2, 4), (4, 0), (5, 3), (10, 0)]\<rparr>) [2, 3] =
     [Inr 4, Inr 4]"
  by (simp add: chart_simps)

text \<open>
  Claim C2 at the chart of capacity 10 with 2 units over \<open>[0, 10)\<close>: every sample in
  \<open>[3, 10)\<close> is 2, so taking 1 off would leave 1 everywhere, and \<^verbatim>\<open>Unoccupy(3, 10, 1)\<close>
  returns false and changes nothing: the value for the new entry at \<open>from\<close> is compared with
  the capacity, not with zero. On a new chart, \<^verbatim>\<open>Unoccupy(0, 5, 0)\<close> reaches
  \<^verbatim>\<open>std::prev(begin())\<close>.
\<close>

theorem Unoccupy_refuses_wrongly:
  "map (sample chart_2_from_0) [3, 4, 5, 6, 7, 8, 9] = replicate 7 (Inr 2) \<and>
   Unoccupy chart_2_from_0 3 10 1 = Inr (False, chart_2_from_0) \<and>
   Unoccupy (new_chart 10) 0 5 0 = Inl PrevOfBegin"
  by (simp add: chart_simps numeral_eq_Suc)

section \<open>Space divisions\<close>

subsection \<open>Ranges\<close>

lemma Range_Overlaps_sym: "Range_Overlaps a b = Range_Overlaps b a"
  by (auto simp: Range_Overlaps_def)

lemma Range_Contains_refl: "Range_Contains a a"
  by (simp add: Range_Contains_def)

lemma Range_Contains_trans:
  "Range_Contains a b \<Longrightarrow> Range_Contains b c \<Longrightarrow> Range_Contains a c"
  by (auto simp: Range_Contains_def)

lemma Range_Overlaps_mono:
  "Range_Contains e x \<Longrightarrow> Range_Contains e' y \<Longrightarrow> Range_Overlaps x y \<Longrightarrow> Range_Overlaps e e'"
  by (auto simp: Range_Contains_def Range_Overlaps_def)

lemma Range_no_overlap_points:
  "\<not> Range_Overlaps a b \<Longrightarrow> Range_points a \<inter> Range_points b = {}"
  by (auto simp: Range_Overlaps_def Range_points_def)

lemma Range_IsEmpty_points: "Range_IsEmpty a \<longleftrightarrow> Range_points a = {}"
  by (auto simp: Range_IsEmpty_def Range_points_def)

lemma Range_inter_points:
  "Range_points (Range_inter t r) = Range_points t \<inter> Range_points r"
  by (auto simp: Range_inter_def Range_points_def Let_def)

lemma Range_inter_Contains:
  "\<not> Range_IsEmpty (Range_inter t r) \<Longrightarrow>
   Range_Contains t (Range_inter t r) \<and> Range_Contains r (Range_inter t r)"
  by (auto simp: Range_inter_def Range_IsEmpty_def Range_Contains_def Let_def)

lemma Range_inter_nonempty:
  "Range_Overlaps t r \<Longrightarrow> \<not> Range_IsEmpty t \<Longrightarrow> \<not> Range_IsEmpty r \<Longrightarrow>
   \<not> Range_IsEmpty (Range_inter t r)"
  by (auto simp: Range_inter_def Range_IsEmpty_def Range_Overlaps_def Let_def)

lemma Range_union_Contains:
  "\<not> Range_IsEmpty t \<Longrightarrow> \<not> Range_IsEmpty r \<Longrightarrow>
   Range_Contains (Range_union t r) t \<and> Range_Contains (Range_union t r) r \<and>
   \<not> Range_IsEmpty (Range_union t r)"
  by (auto simp: Range_union_def Range_IsEmpty_def Range_Contains_def)

lemma RangeSubtract_piece:
  assumes "Range_Overlaps t r" "\<not> Range_IsEmpty t" "\<not> Range_IsEmpty r"
    and "d \<in> set (RangeSubtract t r)"
  shows "\<not> Range_IsEmpty d \<and> Range_Contains t d \<and> \<not> Range_Overlaps d r \<and>
         \<not> Range_Overlaps d (Range_inter t r)"
  using assms
  by (auto simp: RangeSubtract_def Range_Overlaps_def Range_IsEmpty_def Range_Contains_def
      BeginEnd_def Range_inter_def Let_def split: if_splits)

lemma RangeSubtract_pieces_apart:
  assumes "Range_Overlaps t r" "\<not> Range_IsEmpty t" "\<not> Range_IsEmpty r"
  shows "RangeSubtract t r = [] \<or> (\<exists>d. RangeSubtract t r = [d]) \<or>
         (\<exists>d e. RangeSubtract t r = [d, e] \<and> \<not> Range_Overlaps d e)"
  using assms
  by (auto simp: RangeSubtract_def Range_Overlaps_def Range_IsEmpty_def BeginEnd_def
      split: if_splits)

lemma RangeSubtract_points:
  assumes "Range_Overlaps t r" "\<not> Range_IsEmpty t" "\<not> Range_IsEmpty r"
  shows "(\<Union>d \<in> set (RangeSubtract t r). Range_points d) = Range_points t - Range_points r"
  using assms
  by (auto simp: RangeSubtract_def Range_Overlaps_def Range_IsEmpty_def BeginEnd_def
      Range_points_def split: if_splits)

subsection \<open>Spaces\<close>

lemma Space_Overlaps_Cons [simp]:
  "Space_Overlaps (x # xs) (y # ys) \<longleftrightarrow> Range_Overlaps x y \<and> Space_Overlaps xs ys"
  by (simp add: Space_Overlaps_def)

lemma Space_Contains_Cons [simp]:
  "Space_Contains (x # xs) (y # ys) \<longleftrightarrow> Range_Contains x y \<and> Space_Contains xs ys"
  by (simp add: Space_Contains_def)

lemma Space_IsEmpty_Cons [simp]:
  "Space_IsEmpty (x # xs) \<longleftrightarrow> Range_IsEmpty x \<or> Space_IsEmpty xs"
  by (simp add: Space_IsEmpty_def)

lemma Space_IsEmpty_Nil [simp]: "\<not> Space_IsEmpty []"
  by (simp add: Space_IsEmpty_def)

lemma Space_Overlaps_length: "Space_Overlaps a b \<Longrightarrow> length a = length b"
  by (simp add: Space_Overlaps_def list_all2_lengthD)

lemma Space_Contains_length: "Space_Contains a b \<Longrightarrow> length a = length b"
  by (simp add: Space_Contains_def list_all2_lengthD)

lemma Space_Overlaps_sym: "Space_Overlaps a b = Space_Overlaps b a"
proof -
  have "Range_Overlaps\<inverse>\<inverse> = Range_Overlaps"
    by (intro ext) (simp add: Range_Overlaps_sym)
  then show ?thesis
    unfolding Space_Overlaps_def using list.rel_flip [of Range_Overlaps a b] by simp
qed

lemma Space_Contains_refl: "Space_Contains a a"
  by (simp add: Space_Contains_def list_all2_refl Range_Contains_refl)

lemma Space_Contains_trans:
  "Space_Contains a b \<Longrightarrow> Space_Contains b c \<Longrightarrow> Space_Contains a c"
  unfolding Space_Contains_def
  by (rule list_all2_trans [where ?P1.0 = Range_Contains and ?P2.0 = Range_Contains])
    (auto intro: Range_Contains_trans)

lemma Space_Overlaps_mono:
  assumes ex: "Space_Contains e x" and ey: "Space_Contains e' y" and xy: "Space_Overlaps x y"
  shows "Space_Overlaps e e'"
  unfolding Space_Overlaps_def
proof (rule list_all2_all_nthI)
  show "length e = length e'"
    using ex ey xy by (simp add: Space_Contains_def Space_Overlaps_def list_all2_lengthD)
next
  fix i assume i: "i < length e"
  have l: "length e = length x" "length e' = length y" "length x = length y"
    using ex ey xy by (simp_all add: Space_Contains_def Space_Overlaps_def list_all2_lengthD)
  have "Range_Contains (e ! i) (x ! i)"
    using ex i unfolding Space_Contains_def by (rule list_all2_nthD)
  moreover have "Range_Contains (e' ! i) (y ! i)"
    using ey i l unfolding Space_Contains_def by (simp add: list_all2_nthD)
  moreover have "Range_Overlaps (x ! i) (y ! i)"
    using xy i l unfolding Space_Overlaps_def by (simp add: list_all2_nthD)
  ultimately show "Range_Overlaps (e ! i) (e' ! i)" by (rule Range_Overlaps_mono)
qed

lemma Space_points_Cons:
  "Space_points (r # s) = {x # p | x p. x \<in> Range_points r \<and> p \<in> Space_points s}"
  unfolding Space_points_def by (auto simp: list_all2_Cons2)

lemma Space_points_Nil [simp]: "Space_points [] = {[]}"
  unfolding Space_points_def by auto

lemma Space_no_overlap_points:
  "length a = length b \<Longrightarrow> \<not> Space_Overlaps a b \<Longrightarrow> Space_points a \<inter> Space_points b = {}"
proof (induction a b rule: list_induct2)
  case Nil
  then show ?case by (simp add: Space_Overlaps_def)
next
  case (Cons x xs y ys)
  then show ?case
    using Range_no_overlap_points [of x y]
    by (auto simp: Space_points_Cons)
qed

lemma Space_Contains_points: "Space_Contains a b \<Longrightarrow> Space_points b \<subseteq> Space_points a"
proof
  fix p assume c: "Space_Contains a b" and p: "p \<in> Space_points b"
  have pb: "list_all2 (\<lambda>x r. x \<in> Range_points r) p b" using p by (simp add: Space_points_def)
  have "list_all2 (\<lambda>x r. x \<in> Range_points r) p a"
  proof (rule list_all2_all_nthI)
    show "length p = length a"
      using pb c by (simp add: Space_Contains_def list_all2_lengthD)
  next
    fix i assume i: "i < length p"
    have "p ! i \<in> Range_points (b ! i)" using pb i by (rule list_all2_nthD)
    moreover have "Range_Contains (a ! i) (b ! i)"
      using c i pb unfolding Space_Contains_def by (simp add: list_all2_nthD2 list_all2_lengthD)
    ultimately show "p ! i \<in> Range_points (a ! i)"
      using Range_Contains_points by blast
  qed
  then show "p \<in> Space_points a" by (simp add: Space_points_def)
qed

lemma Space_IsEmpty_points: "Space_IsEmpty a \<Longrightarrow> Space_points a = {}"
proof (induction a)
  case Nil
  then show ?case by simp
next
  case (Cons x xs)
  then show ?case using Range_IsEmpty_points [of x] by (auto simp: Space_points_Cons)
qed

subsection \<open>Intersection of spaces\<close>

lemma inter_until_empty_props:
  "length a = length b \<Longrightarrow> inter_until_empty a b = (ok, a') \<Longrightarrow>
   length a' = length a \<and>
   (if ok then a' = map2 Range_inter a b \<and> \<not> Space_IsEmpty a'
    else a' \<noteq> [] \<and> list_ex (\<lambda>(x, y). Range_IsEmpty (Range_inter x y)) (zip a b))"
proof (induction a b arbitrary: ok a' rule: list_induct2)
  case Nil
  then show ?case by auto
next
  case (Cons x xs y ys)
  show ?case
  proof (cases "Range_IsEmpty (Range_inter x y)")
    case True
    then show ?thesis using Cons.prems by (auto simp: Let_def)
  next
    case False
    obtain ok1 as1 where r: "inter_until_empty xs ys = (ok1, as1)" by (cases "inter_until_empty xs ys")
    from Cons.IH [OF r] Cons.prems False r show ?thesis
      by (auto simp: Let_def split: if_splits)
  qed
qed

lemma Space_Clear_length [simp]: "length (Space_Clear s) = length s"
  by (simp add: Space_Clear_def)

lemma Space_Clear_IsEmpty: "s \<noteq> [] \<Longrightarrow> Space_IsEmpty (Space_Clear s)"
  by (cases s) (auto simp: Space_Clear_def BeginCount_def Range_IsEmpty_def)

lemma Space_inter_length: "length a = length b \<Longrightarrow> length (Space_inter a b) = length a"
proof -
  assume l: "length a = length b"
  obtain ok a' where r: "inter_until_empty a b = (ok, a')" by (cases "inter_until_empty a b")
  from inter_until_empty_props [OF l r] r show ?thesis
    by (auto simp: Space_inter_def split: if_splits)
qed

lemma Space_inter_nonempty:
  assumes l: "length a = length b" and n: "\<not> Space_IsEmpty (Space_inter a b)"
  shows "Space_inter a b = map2 Range_inter a b"
proof -
  obtain ok a' where r: "inter_until_empty a b = (ok, a')" by (cases "inter_until_empty a b")
  have "ok"
  proof (rule ccontr)
    assume "\<not> ok"
    then have "a' \<noteq> []" "Space_inter a b = Space_Clear a'"
      using inter_until_empty_props [OF l r] r by (auto simp: Space_inter_def)
    then show False using n Space_Clear_IsEmpty by metis
  qed
  then show ?thesis using inter_until_empty_props [OF l r] r by (auto simp: Space_inter_def)
qed

lemma map2_inter_Contains:
  "length a = length b \<Longrightarrow> \<not> Space_IsEmpty (map2 Range_inter a b) \<Longrightarrow>
   Space_Contains a (map2 Range_inter a b) \<and> Space_Contains b (map2 Range_inter a b)"
proof (induction a b rule: list_induct2)
  case Nil
  then show ?case by (simp add: Space_Contains_def)
next
  case (Cons x xs y ys)
  then show ?case using Range_inter_Contains [of x y] by auto
qed

lemma Space_inter_Contains:
  assumes "length a = length b" "\<not> Space_IsEmpty (Space_inter a b)"
  shows "Space_Contains a (Space_inter a b) \<and> Space_Contains b (Space_inter a b)"
  using map2_inter_Contains [OF assms(1)] Space_inter_nonempty [OF assms] assms(2) by simp

lemma map2_inter_points:
  "length a = length b \<Longrightarrow>
   Space_points (map2 Range_inter a b) = Space_points a \<inter> Space_points b"
proof (induction a b rule: list_induct2)
  case Nil
  then show ?case by simp
next
  case (Cons x xs y ys)
  then show ?case by (auto simp: Space_points_Cons Range_inter_points)
qed

lemma empty_inter_points:
  "length a = length b \<Longrightarrow> list_ex (\<lambda>(x, y). Range_IsEmpty (Range_inter x y)) (zip a b) \<Longrightarrow>
   Space_points a \<inter> Space_points b = {}"
proof (induction a b rule: list_induct2)
  case Nil
  then show ?case by simp
next
  case (Cons x xs y ys)
  then show ?case
    using Range_inter_points [of x y] Range_IsEmpty_points [of "Range_inter x y"]
    by (auto simp: Space_points_Cons)
qed

lemma Space_inter_points:
  assumes l: "length a = length b"
  shows "Space_points (Space_inter a b) = Space_points a \<inter> Space_points b"
proof -
  obtain ok a' where r: "inter_until_empty a b = (ok, a')" by (cases "inter_until_empty a b")
  show ?thesis
  proof (cases ok)
    case True
    then have "Space_inter a b = map2 Range_inter a b"
      using inter_until_empty_props [OF l r] r by (auto simp: Space_inter_def)
    then show ?thesis using map2_inter_points [OF l] by simp
  next
    case False
    then have e: "a' \<noteq> []" "list_ex (\<lambda>(x, y). Range_IsEmpty (Range_inter x y)) (zip a b)"
      and c: "Space_inter a b = Space_Clear a'"
      using inter_until_empty_props [OF l r] r by (auto simp: Space_inter_def)
    have "Space_points (Space_inter a b) = {}"
      using c Space_IsEmpty_points [OF Space_Clear_IsEmpty [OF e(1)]] by simp
    then show ?thesis using empty_inter_points [OF l e(2)] by simp
  qed
qed

subsection \<open>Lists of spaces without overlaps\<close>

lemma no_overlaps_append:
  "no_overlaps (xs @ ys) \<longleftrightarrow>
   no_overlaps xs \<and> no_overlaps ys \<and> (\<forall>x\<in>set xs. \<forall>y\<in>set ys. \<not> Space_Overlaps x y)"
  by (induction xs) (auto simp: list_all_iff)

lemma no_overlaps_map_Cons: "no_overlaps ps \<Longrightarrow> no_overlaps (map ((#) x) ps)"
  by (induction ps) (auto simp: list_all_iff)

lemma no_overlaps_refine:
  assumes "no_overlaps ss"
    and "\<And>s. s \<in> set ss \<Longrightarrow> no_overlaps (h s)"
    and "\<And>s p. s \<in> set ss \<Longrightarrow> p \<in> set (h s) \<Longrightarrow> Space_Contains s p"
  shows "no_overlaps (concat (map h ss))"
  using assms
proof (induction ss)
  case Nil
  then show ?case by simp
next
  case (Cons s ss)
  have rest: "no_overlaps (concat (map h ss))"
    using Cons by (auto simp: list_all_iff)
  have cross: "\<not> Space_Overlaps x y"
    if x: "x \<in> set (h s)" and y: "y \<in> set (concat (map h ss))" for x y
  proof
    assume o: "Space_Overlaps x y"
    from y obtain s' where s': "s' \<in> set ss" "y \<in> set (h s')" by auto
    have "Space_Contains s x" using Cons.prems(3) [of s x] x by simp
    moreover have "Space_Contains s' y" using Cons.prems(3) [of s' y] s' by simp
    ultimately have "Space_Overlaps s s'" using o by (rule Space_Overlaps_mono)
    then show False using Cons.prems(1) s'(1) by (auto simp: list_all_iff)
  qed
  show ?case using rest cross Cons.prems(2) [of s] by (simp add: no_overlaps_append)
qed

lemma no_overlaps_disjoint_points:
  "\<forall>s\<in>set ss. length s = n \<Longrightarrow> no_overlaps ss \<Longrightarrow> disjoint_points ss"
  by (induction ss) (auto simp: list_all_iff Space_no_overlap_points)

subsection \<open>The pieces of a trimmed section\<close>

lemma trim_pieces_props:
  "Space_Overlaps t r \<Longrightarrow> \<not> Space_IsEmpty t \<Longrightarrow> \<not> Space_IsEmpty r \<Longrightarrow>
   p \<in> set (trim_pieces t r) \<Longrightarrow>
   length p = length t \<and> \<not> Space_IsEmpty p \<and> Space_Contains t p \<and> \<not> Space_Overlaps p r"
proof (induction t r arbitrary: p rule: trim_pieces.induct)
  case (1 t trim r remove)
  have o: "Range_Overlaps t r" "Space_Overlaps trim remove"
    and ne: "\<not> Range_IsEmpty t" "\<not> Space_IsEmpty trim" "\<not> Range_IsEmpty r" "\<not> Space_IsEmpty remove"
    using "1.prems" by auto
  from "1.prems"(4) consider
    (here) d where "d \<in> set (RangeSubtract t r)" "p = d # trim"
    | (later) q where "q \<in> set (trim_pieces trim remove)" "p = Range_inter t r # q"
    by auto
  then show ?case
  proof cases
    case here
    then show ?thesis
      using RangeSubtract_piece [OF o(1) ne(1) ne(3) here(1)] ne(2)
      by (simp add: Space_Contains_refl)
  next
    case later
    from "1.IH" [OF o(2) ne(2) ne(4) later(1)] later(2)
      Range_inter_nonempty [OF o(1) ne(1) ne(3)] Range_inter_Contains [of t r]
    show ?thesis by simp
  qed
qed simp_all

lemma trim_pieces_no_overlaps:
  "Space_Overlaps t r \<Longrightarrow> \<not> Space_IsEmpty t \<Longrightarrow> \<not> Space_IsEmpty r \<Longrightarrow>
   no_overlaps (trim_pieces t r)"
proof (induction t r rule: trim_pieces.induct)
  case (1 t trim r remove)
  have o: "Range_Overlaps t r" "Space_Overlaps trim remove"
    and ne: "\<not> Range_IsEmpty t" "\<not> Space_IsEmpty trim" "\<not> Range_IsEmpty r" "\<not> Space_IsEmpty remove"
    using "1.prems" by auto
  have A: "no_overlaps (map (\<lambda>d. d # trim) (RangeSubtract t r))"
    using RangeSubtract_pieces_apart [OF o(1) ne(1) ne(3)] by auto
  have B: "no_overlaps (map ((#) (Range_inter t r)) (trim_pieces trim remove))"
    using "1.IH" [OF o(2) ne(2) ne(4)] by (rule no_overlaps_map_Cons)
  have C: "\<not> Space_Overlaps x y"
    if "x \<in> set (map (\<lambda>d. d # trim) (RangeSubtract t r))"
      "y \<in> set (map ((#) (Range_inter t r)) (trim_pieces trim remove))" for x y
    using that RangeSubtract_piece [OF o(1) ne(1) ne(3)] by auto
  show ?case using A B C by (simp add: no_overlaps_append)
qed simp_all

lemma trim_pieces_points:
  "Space_Overlaps t r \<Longrightarrow> \<not> Space_IsEmpty t \<Longrightarrow> \<not> Space_IsEmpty r \<Longrightarrow>
   (\<Union>p \<in> set (trim_pieces t r). Space_points p) = Space_points t - Space_points r"
proof (induction t r rule: trim_pieces.induct)
  case (1 t trim r remove)
  have o: "Range_Overlaps t r" "Space_Overlaps trim remove"
    and ne: "\<not> Range_IsEmpty t" "\<not> Space_IsEmpty trim" "\<not> Range_IsEmpty r" "\<not> Space_IsEmpty remove"
    using "1.prems" by auto
  have IH: "(\<Union>p \<in> set (trim_pieces trim remove). Space_points p) =
            Space_points trim - Space_points remove"
    using "1.IH" [OF o(2) ne(2) ne(4)] .
  have sub: "(\<Union>d \<in> set (RangeSubtract t r). Range_points d) = Range_points t - Range_points r"
    using RangeSubtract_points [OF o(1) ne(1) ne(3)] .
  have sub': "(\<exists>d\<in>set (RangeSubtract t r). x \<in> Range_points d) \<longleftrightarrow>
              x \<in> Range_points t \<and> x \<notin> Range_points r" for x
    using sub by blast
  have A: "(\<Union>p \<in> set (map (\<lambda>d. d # trim) (RangeSubtract t r)). Space_points p) =
           {x # q | x q. x \<in> Range_points t - Range_points r \<and> q \<in> Space_points trim}"
    using sub' by (auto simp: Space_points_Cons)
  have IH': "(\<exists>p\<in>set (trim_pieces trim remove). q \<in> Space_points p) \<longleftrightarrow>
             q \<in> Space_points trim \<and> q \<notin> Space_points remove" for q
    using IH by blast
  have B: "(\<Union>p \<in> set (map ((#) (Range_inter t r)) (trim_pieces trim remove)). Space_points p) =
           {x # q | x q. x \<in> Range_points t \<inter> Range_points r \<and>
                          q \<in> Space_points trim - Space_points remove}"
    using IH' by (auto simp: Space_points_Cons Range_inter_points)
  have "(\<Union>p \<in> set (trim_pieces (t # trim) (r # remove)). Space_points p) =
        (\<Union>p \<in> set (map (\<lambda>d. d # trim) (RangeSubtract t r)). Space_points p) \<union>
        (\<Union>p \<in> set (map ((#) (Range_inter t r)) (trim_pieces trim remove)). Space_points p)"
    by auto
  also have "\<dots> = Space_points (t # trim) - Space_points (r # remove)"
    unfolding A B by (auto simp: Space_points_Cons)
  finally show ?case .
qed (auto simp: Space_Overlaps_def)

subsection \<open>The operations keep the invariant\<close>

lemma SpaceDivision_inv_iff:
  "SpaceDivision_inv sd \<longleftrightarrow>
   (\<forall>s \<in> snd ` set (Sections sd).
      length s = length (FullSpace sd) \<and> \<not> Space_IsEmpty s \<and> Space_Contains (FullSpace sd) s) \<and>
   no_overlaps (map snd (Sections sd))"
  unfolding SpaceDivision_inv_def Dimensions_def list_all_iff by force

lemma trimmed_sections:
  "set es \<subseteq> set es0 \<Longrightarrow>
   map snd (concat (map (\<lambda>entry. if entry \<in> set (filter (\<lambda>(assign, t). Space_Overlaps t s) es0)
                                   then TrimSection entry s else [entry]) es)) =
   concat (map (trimmed s) (map snd es))"
proof (induction es)
  case Nil
  then show ?case by simp
next
  case (Cons e es)
  obtain a t where e: "e = (a, t)" by (cases e)
  have "e \<in> set es0" using Cons.prems by simp
  then have "(e \<in> set (filter (\<lambda>(assign, t). Space_Overlaps t s) es0)) = Space_Overlaps t s"
    using e by simp
  then show ?case using Cons e
    by (simp add: trimmed_def TrimSection_def comp_def)
qed

lemma AssignSection_unfold:
  assumes "\<not> Space_IsEmpty (Space_inter sec (FullSpace sd))"
  shows "FullSpace (AssignSection sd sec a) = FullSpace sd"
    and "map snd (Sections (AssignSection sd sec a)) =
         concat (map (trimmed (Space_inter sec (FullSpace sd))) (map snd (Sections sd))) @
         [Space_inter sec (FullSpace sd)]"
    and "filter (\<lambda>(assign, s). assign = a) (Sections (AssignSection sd sec a)) \<noteq> [] \<and>
         last (filter (\<lambda>(assign, s). assign = a) (Sections (AssignSection sd sec a))) =
           (a, Space_inter sec (FullSpace sd))"
  using assms trimmed_sections [of "Sections sd" "Sections sd" "Space_inter sec (FullSpace sd)"]
  by (simp_all add: AssignSection_def Let_def FindOverlaps_def)

lemma AssignSection_empty:
  "Space_IsEmpty (Space_inter sec (FullSpace sd)) \<Longrightarrow> AssignSection sd sec a = sd"
  by (simp add: AssignSection_def Let_def)

lemma trimmed_props:
  assumes s: "\<not> Space_IsEmpty s" and r: "\<not> Space_IsEmpty r" and p: "p \<in> set (trimmed r s)"
  shows "length p = length s \<and> \<not> Space_IsEmpty p \<and> Space_Contains s p \<and> \<not> Space_Overlaps p r"
proof (cases "Space_Overlaps s r")
  case True
  then show ?thesis using trim_pieces_props [OF True s r] p by (simp add: trimmed_def)
next
  case False
  then show ?thesis using p s by (simp add: trimmed_def Space_Contains_refl)
qed

lemma trimmed_no_overlaps:
  "\<not> Space_IsEmpty s \<Longrightarrow> \<not> Space_IsEmpty r \<Longrightarrow> no_overlaps (trimmed r s)"
  by (simp add: trimmed_def trim_pieces_no_overlaps)

lemma AssignSection_inv:
  assumes inv: "SpaceDivision_inv sd" and len: "length sec = length (FullSpace sd)"
  shows "SpaceDivision_inv (AssignSection sd sec a)"
proof (cases "Space_IsEmpty (Space_inter sec (FullSpace sd))")
  case True
  then show ?thesis using inv by (simp add: AssignSection_empty)
next
  case False
  let ?full = "FullSpace sd"
  let ?sec = "Space_inter sec ?full"
  let ?old = "map snd (Sections sd)"
  note unf = AssignSection_unfold [OF False, of a]
  have old: "\<And>s. s \<in> set ?old \<Longrightarrow>
      length s = length ?full \<and> \<not> Space_IsEmpty s \<and> Space_Contains ?full s"
    and oldno: "no_overlaps ?old"
    using inv by (auto simp: SpaceDivision_inv_iff)
  have secp: "length ?sec = length ?full" "Space_Contains ?full ?sec"
    using Space_inter_length [OF len] Space_inter_Contains [OF len False] len by simp_all
  have piece: "length p = length ?full \<and> \<not> Space_IsEmpty p \<and> Space_Contains ?full p \<and>
               \<not> Space_Overlaps p ?sec"
    if "p \<in> set (concat (map (trimmed ?sec) ?old))" for p
  proof -
    from that obtain s where s: "s \<in> set ?old" "p \<in> set (trimmed ?sec s)" by auto
    from trimmed_props [OF _ False s(2)] old [OF s(1)]
    show ?thesis using Space_Contains_trans by metis
  qed
  have no1: "no_overlaps (concat (map (trimmed ?sec) ?old))"
  proof (rule no_overlaps_refine [OF oldno])
    fix s assume "s \<in> set ?old"
    then show "no_overlaps (trimmed ?sec s)" using old False by (simp add: trimmed_no_overlaps)
  next
    fix s p assume "s \<in> set ?old" "p \<in> set (trimmed ?sec s)"
    then show "Space_Contains s p" using trimmed_props [OF _ False] old by blast
  qed
  have no: "no_overlaps (map snd (Sections (AssignSection sd sec a)))"
    unfolding unf(2) using no1 piece by (simp add: no_overlaps_append)
  have all: "\<forall>s \<in> snd ` set (Sections (AssignSection sd sec a)).
      length s = length ?full \<and> \<not> Space_IsEmpty s \<and> Space_Contains ?full s"
  proof
    fix s assume "s \<in> snd ` set (Sections (AssignSection sd sec a))"
    then have "s \<in> set (map snd (Sections (AssignSection sd sec a)))" by simp
    then have "s \<in> set (concat (map (trimmed ?sec) ?old)) \<or> s = ?sec"
      unfolding unf(2) by auto
    then show "length s = length ?full \<and> \<not> Space_IsEmpty s \<and> Space_Contains ?full s"
      using piece secp False by blast
  qed
  show ?thesis using all no unf(1) by (simp add: SpaceDivision_inv_iff)
qed

lemma no_overlaps_filter: "no_overlaps ss \<Longrightarrow> no_overlaps (filter P ss)"
  by (induction ss) (auto simp: list_all_iff)

lemma Unassign_inv: "SpaceDivision_inv sd \<Longrightarrow> SpaceDivision_inv (Unassign sd a)"
proof -
  assume inv: "SpaceDivision_inv sd"
  have "no_overlaps (map snd (filter (\<lambda>(assign, s). assign \<noteq> a) (Sections sd)))"
    using inv unfolding SpaceDivision_inv_iff
  proof (induction "Sections sd" arbitrary: sd)
    case Nil
    then show ?case by simp
  next
    case (Cons e es)
    have "no_overlaps (map snd es)" using Cons.prems Cons.hyps(2) [symmetric] by simp
    then have "no_overlaps (map snd (filter (\<lambda>(assign, s). assign \<noteq> a) es))"
      using Cons.hyps(1) [of "sd\<lparr>Sections := es\<rparr>"] Cons.prems Cons.hyps(2) [symmetric]
      by simp
    then show ?case using Cons.prems Cons.hyps(2) [symmetric]
      by (auto simp: list_all_iff)
  qed
  then show ?thesis using inv by (auto simp: SpaceDivision_inv_iff Unassign_def)
qed

lemma SubDivision_sections:
  "map snd (Sections (SubDivision sd sub)) =
   concat (map (\<lambda>s. if Space_IsEmpty (Space_inter s sub) then [] else [Space_inter s sub])
             (map snd (Sections sd)))"
proof -
  have "map snd (filter (\<lambda>(assign, s). \<not> Space_IsEmpty s)
                  (map (\<lambda>(assign, s). (assign, Space_inter s sub)) es)) =
        concat (map (\<lambda>s. if Space_IsEmpty (Space_inter s sub) then [] else [Space_inter s sub])
                  (map snd es))" for es :: "('a \<times> Space) list"
    by (induction es) auto
  then show ?thesis by (simp add: SubDivision_def)
qed

lemma concat_map_mem: "p \<in> set (concat (map h xs)) \<Longrightarrow> \<exists>s\<in>set xs. p \<in> set (h s)"
  by auto

lemma SubDivision_inv:
  assumes inv: "SpaceDivision_inv sd" and len: "length sub = length (FullSpace sd)"
  shows "SpaceDivision_inv (SubDivision sd sub)"
proof -
  let ?old = "map snd (Sections sd)"
  let ?h = "\<lambda>s. if Space_IsEmpty (Space_inter s sub) then [] else [Space_inter s sub]"
  have old: "\<And>s. s \<in> set ?old \<Longrightarrow> length s = length sub"
    and oldno: "no_overlaps ?old"
    using inv len by (auto simp: SpaceDivision_inv_iff)
  have piece: "length p = length sub \<and> \<not> Space_IsEmpty p \<and> Space_Contains sub p \<and>
               Space_Contains s p"
    if "s \<in> set ?old" "p \<in> set (?h s)" for s p
  proof -
    have e: "\<not> Space_IsEmpty (Space_inter s sub)" "p = Space_inter s sub"
      using that(2) by (auto split: if_splits)
    show ?thesis
      using Space_inter_length [OF old [OF that(1)]] Space_inter_Contains [OF old [OF that(1)] e(1)]
        e old [OF that(1)] by simp
  qed
  have no: "no_overlaps (concat (map ?h ?old))"
  proof (rule no_overlaps_refine [OF oldno])
    fix s assume "s \<in> set ?old"
    show "no_overlaps (?h s)" by simp
  next
    fix s p assume "s \<in> set ?old" "p \<in> set (?h s)"
    then show "Space_Contains s p" using piece by blast
  qed
  have all: "\<forall>p \<in> snd ` set (Sections (SubDivision sd sub)).
      length p = length sub \<and> \<not> Space_IsEmpty p \<and> Space_Contains sub p"
  proof
    fix p assume "p \<in> snd ` set (Sections (SubDivision sd sub))"
    then have "p \<in> set (map snd (Sections (SubDivision sd sub)))" by simp
    then have "p \<in> set (concat (map ?h ?old))" unfolding SubDivision_sections .
    then have "\<exists>s \<in> set ?old. p \<in> set (?h s)" by (rule concat_map_mem)
    then obtain s where "s \<in> set ?old" "p \<in> set (?h s)" by blast
    then show "length p = length sub \<and> \<not> Space_IsEmpty p \<and> Space_Contains sub p"
      using piece by blast
  qed
  have full: "FullSpace (SubDivision sd sub) = sub" by (simp add: SubDivision_def)
  show ?thesis
    unfolding SpaceDivision_inv_iff full using all no SubDivision_sections [of sd sub] by simp
qed

subsection \<open>The envelope\<close>

lemma Space_union_props:
  "length a = length b \<Longrightarrow> \<not> Space_IsEmpty a \<Longrightarrow> \<not> Space_IsEmpty b \<Longrightarrow>
   length (Space_union a b) = length a \<and> \<not> Space_IsEmpty (Space_union a b) \<and>
   Space_Contains (Space_union a b) a \<and> Space_Contains (Space_union a b) b"
proof (induction a b rule: list_induct2)
  case Nil
  then show ?case by (simp add: Space_union_def Space_Contains_def)
next
  case (Cons x xs y ys)
  then show ?case using Range_union_Contains [of x y] by (simp add: Space_union_def)
qed

lemma envelope_fold:
  "length first = n \<Longrightarrow> \<not> Space_IsEmpty first \<Longrightarrow>
   \<forall>s \<in> snd ` set rest. length s = n \<and> \<not> Space_IsEmpty s \<Longrightarrow>
   length (fold (\<lambda>(assign, s) ret. Space_union ret s) rest first) = n \<and>
   \<not> Space_IsEmpty (fold (\<lambda>(assign, s) ret. Space_union ret s) rest first) \<and>
   Space_Contains (fold (\<lambda>(assign, s) ret. Space_union ret s) rest first) first \<and>
   (\<forall>s \<in> snd ` set rest.
      Space_Contains (fold (\<lambda>(assign, s) ret. Space_union ret s) rest first) s)"
proof (induction rest arbitrary: first)
  case Nil
  then show ?case by (simp add: Space_Contains_refl)
next
  case (Cons e rest)
  obtain a s where e: "e = (a, s)" by (cases e)
  have s: "length s = n" "\<not> Space_IsEmpty s" using Cons.prems(3) e by auto
  have u: "length (Space_union first s) = n" "\<not> Space_IsEmpty (Space_union first s)"
    "Space_Contains (Space_union first s) first" "Space_Contains (Space_union first s) s"
    using Space_union_props [of first s] Cons.prems(1,2) s by simp_all
  have rest: "\<forall>s \<in> snd ` set rest. length s = n \<and> \<not> Space_IsEmpty s"
    using Cons.prems(3) by simp
  from Cons.IH [OF u(1) u(2) rest] u(3) u(4) e
  show ?case using Space_Contains_trans by (simp, blast)
qed

lemma GetEnvelope_contains:
  assumes inv: "SpaceDivision_inv sd" and mem: "(a, s) \<in> set (Sections sd)"
  shows "Space_Contains (GetEnvelope sd a) s"
proof -
  let ?F = "filter (\<lambda>(assign, s). assign = a) (Sections sd)"
  have memF: "(a, s) \<in> set ?F" using mem by simp
  then obtain k first rest where F: "?F = (k, first) # rest" by (cases ?F) auto
  have sub: "set ?F \<subseteq> set (Sections sd)" by auto
  have all: "\<forall>t \<in> snd ` set ?F. length t = length (FullSpace sd) \<and> \<not> Space_IsEmpty t"
    using inv sub unfolding SpaceDivision_inv_iff by blast
  have "length first = length (FullSpace sd)" "\<not> Space_IsEmpty first"
    "\<forall>t \<in> snd ` set rest. length t = length (FullSpace sd) \<and> \<not> Space_IsEmpty t"
    using all F by simp_all
  from envelope_fold [OF this]
  have "\<forall>t \<in> snd ` set ?F. Space_Contains (fold (\<lambda>(assign, s) ret. Space_union ret s) rest first) t"
    using F by simp
  then have "Space_Contains (fold (\<lambda>(assign, s) ret. Space_union ret s) rest first) s"
    using memF by force
  then show ?thesis using F by (simp add: GetEnvelope_def)
qed

lemma AssignSection_envelope:
  assumes inv: "SpaceDivision_inv sd" and len: "length sec = length (FullSpace sd)"
  shows "Space_points sec \<inter> Space_points (FullSpace sd) \<subseteq>
         Space_points (GetEnvelope (AssignSection sd sec a) a)"
proof (cases "Space_IsEmpty (Space_inter sec (FullSpace sd))")
  case True
  then have "Space_points (Space_inter sec (FullSpace sd)) = {}" by (rule Space_IsEmpty_points)
  then show ?thesis using Space_inter_points [OF len] by simp
next
  case False
  have "(a, Space_inter sec (FullSpace sd)) \<in> set (Sections (AssignSection sd sec a))"
    using False by (simp add: AssignSection_def Let_def)
  from GetEnvelope_contains [OF AssignSection_inv [OF inv len] this]
  have "Space_points (Space_inter sec (FullSpace sd)) \<subseteq>
        Space_points (GetEnvelope (AssignSection sd sec a) a)"
    by (rule Space_Contains_points)
  then show ?thesis using Space_inter_points [OF len] by simp
qed

subsection \<open>Sequences of operations\<close>

lemma new_SpaceDivision_inv: "SpaceDivision_inv (SpaceDivision fullspace)"
  by (simp add: SpaceDivision_inv_def SpaceDivision_def)

lemma FullSpace_length:
  "op_fits (length (FullSpace sd)) x \<Longrightarrow> length (FullSpace (apply_op x sd)) = length (FullSpace sd)"
  by (cases x) (auto simp: AssignSection_def Unassign_def SubDivision_def Let_def Dimensions_def)

lemma apply_op_inv:
  "SpaceDivision_inv sd \<Longrightarrow> op_fits (length (FullSpace sd)) x \<Longrightarrow> SpaceDivision_inv (apply_op x sd)"
  by (cases x) (auto simp: AssignSection_inv Unassign_inv SubDivision_inv Dimensions_def)

lemma fold_apply_op_inv:
  "SpaceDivision_inv sd \<Longrightarrow> list_all (op_fits (length (FullSpace sd))) ops \<Longrightarrow>
   SpaceDivision_inv (fold apply_op ops sd) \<and>
   length (FullSpace (fold apply_op ops sd)) = length (FullSpace sd)"
proof (induction ops arbitrary: sd)
  case Nil
  then show ?case by simp
next
  case (Cons x ops)
  have x: "op_fits (length (FullSpace sd)) x" and rest: "list_all (op_fits (length (FullSpace sd))) ops"
    using Cons.prems(2) by simp_all
  have l: "length (FullSpace (apply_op x sd)) = length (FullSpace sd)"
    using FullSpace_length [OF x] .
  from Cons.IH [OF apply_op_inv [OF Cons.prems(1) x]] rest l
  show ?case by simp
qed

lemma inv_points:
  assumes "SpaceDivision_inv sd"
  shows "list_all (\<lambda>(assign, s). Space_points s \<subseteq> Space_points (FullSpace sd)) (Sections sd)"
    and "disjoint_points (map snd (Sections sd))"
proof -
  show "list_all (\<lambda>(assign, s). Space_points s \<subseteq> Space_points (FullSpace sd)) (Sections sd)"
    using assms Space_Contains_points unfolding SpaceDivision_inv_def list_all_iff by fastforce
  have "\<forall>s\<in>set (map snd (Sections sd)). length s = length (FullSpace sd)"
    using assms unfolding SpaceDivision_inv_iff by simp
  then show "disjoint_points (map snd (Sections sd))"
    using no_overlaps_disjoint_points assms unfolding SpaceDivision_inv_iff by blast
qed

text \<open>
  Claim C4. Take a new division of \<open>fullspace\<close> and any sequence of \<^verbatim>\<open>AssignSection\<close>,
  \<^verbatim>\<open>Unassign\<close> and \<^verbatim>\<open>SubDivision\<close> calls whose spaces have the dimensionality of
  \<open>fullspace\<close>. In the division \<open>sd\<close> that results, the invariant of the source's predicates
  holds; the points of every stored space are points of the bounding space of \<open>sd\<close>; the
  stored spaces have pairwise no point in common; and after one more
  \<^verbatim>\<open>AssignSection(sec, a)\<close> the points of \<open>sec\<close> that lie in the bounding space are points
  of \<^verbatim>\<open>GetEnvelope(a)\<close>.
\<close>

theorem SpaceDivision_sections_disjoint:
  assumes ops: "list_all (op_fits (Dimensions fullspace)) ops"
    and sec: "Dimensions sec = Dimensions fullspace"
  shows "let sd = fold apply_op ops (SpaceDivision fullspace) in
         SpaceDivision_inv sd \<and>
         list_all (\<lambda>(assign, s). Space_points s \<subseteq> Space_points (FullSpace sd)) (Sections sd) \<and>
         disjoint_points (map snd (Sections sd)) \<and>
         Space_points sec \<inter> Space_points (FullSpace sd) \<subseteq>
           Space_points (GetEnvelope (AssignSection sd sec a) a)"
proof -
  let ?sd = "fold apply_op ops (SpaceDivision fullspace)"
  have f: "FullSpace (SpaceDivision fullspace :: 'a SpaceDivision) = fullspace"
    by (simp add: SpaceDivision_def)
  have "list_all (op_fits (length (FullSpace (SpaceDivision fullspace :: 'a SpaceDivision)))) ops"
    using ops by (simp add: f Dimensions_def)
  from fold_apply_op_inv [OF new_SpaceDivision_inv this]
  have inv: "SpaceDivision_inv ?sd" and l: "length (FullSpace ?sd) = length fullspace"
    by (simp_all add: f)
  have "length sec = length (FullSpace ?sd)" using sec l by (simp add: Dimensions_def)
  from AssignSection_envelope [OF inv this, of a] inv_points [OF inv] inv
  show ?thesis by (simp add: Let_def)
qed

lemma division_example:
  "fold apply_op division_ops (SpaceDivision [BeginCount 0 4, BeginCount 0 4]) =
     \<lparr>FullSpace = [BeginEnd 0 4, BeginEnd 0 4],
      Sections = [(1, [BeginEnd 0 1, BeginEnd 0 4]), (1, [BeginEnd 3 4, BeginEnd 0 4]),
                  (1, [BeginEnd 1 3, BeginEnd 0 1]), (2, [BeginEnd 1 3, BeginEnd 1 4])]\<rparr>"
  by (simp add: division_ops_def SpaceDivision_def AssignSection_def FindOverlaps_def
      TrimSection_def Space_inter_def Space_IsEmpty_def Space_Overlaps_def Range_inter_def
      Range_IsEmpty_def Range_Overlaps_def RangeSubtract_def BeginEnd_def BeginCount_def Let_def)

theorem SpaceDivision_sections_disjoint_witness:
  "list_all (op_fits (Dimensions [BeginCount 0 4, BeginCount 0 4])) division_ops \<and>
   Dimensions [BeginEnd 3 5, BeginEnd 0 1] = Dimensions [BeginCount 0 4, BeginCount 0 4] \<and>
   (let sd = fold apply_op division_ops (SpaceDivision [BeginCount 0 4, BeginCount 0 4]) in
    SpaceDivision_inv sd \<and>
    list_all (\<lambda>(assign, s). Space_points s \<subseteq> Space_points (FullSpace sd)) (Sections sd) \<and>
    disjoint_points (map snd (Sections sd)) \<and>
    Space_points [BeginEnd 3 5, BeginEnd 0 1] \<inter> Space_points (FullSpace sd) \<subseteq>
      Space_points (GetEnvelope (AssignSection sd [BeginEnd 3 5, BeginEnd 0 1] 2) 2))"
proof -
  have a: "list_all (op_fits (Dimensions [BeginCount 0 4, BeginCount 0 4])) division_ops"
    by (simp add: division_ops_def Dimensions_def)
  have b: "Dimensions [BeginEnd 3 5, BeginEnd 0 1] = Dimensions [BeginCount 0 4, BeginCount 0 4]"
    by (simp add: Dimensions_def)
  show ?thesis using a b SpaceDivision_sections_disjoint [OF a b, of 2] by blast
qed

end
